theory Spec2Isabelle
  imports Main "HOL-Library.AList"
begin

section \<open>The Closure containers used by the sources\<close>

text \<open>
  \<^verbatim>\<open>goog.structs.Set\<close> keeps its elements in insertion order and never twice. It is the
  type of the duplicate-free lists; \<open>gsSet_getValues\<close> is \<^verbatim>\<open>getValues()\<close>.
\<close>

typedef 'a gsSet = "{xs :: 'a list. distinct xs}"
  morphisms gsSet_getValues Abs_gsSet
  by (rule exI [of _ "[]"]) simp

setup_lifting type_definition_gsSet

lift_definition gsSet_empty :: "'a gsSet" is "[]"
  by simp

lift_definition gsSet_add :: "'a gsSet \<Rightarrow> 'a \<Rightarrow> 'a gsSet"
  is "\<lambda>xs x. if x \<in> set xs then xs else xs @ [x]"
  by auto

text \<open>\<^verbatim>\<open>new goog.structs.Set(values)\<close> adds the values one after the other.\<close>

definition gsSet_new :: "'a list \<Rightarrow> 'a gsSet" where
  "gsSet_new vals = foldl gsSet_add gsSet_empty vals"

definition gsSet_getCount :: "'a gsSet \<Rightarrow> nat" where
  "gsSet_getCount s = length (gsSet_getValues s)"

definition gsSet_contains :: "'a gsSet \<Rightarrow> 'a \<Rightarrow> bool" where
  "gsSet_contains s x = (x \<in> set (gsSet_getValues s))"

definition gsSet_isSubsetOf :: "'a gsSet \<Rightarrow> 'a gsSet \<Rightarrow> bool" where
  "gsSet_isSubsetOf s col =
     (if gsSet_getCount s > gsSet_getCount col then False
      else list_all (gsSet_contains col) (gsSet_getValues s))"

text \<open>\<^verbatim>\<open>equals\<close>: the same count, and a subset.\<close>

definition gsSet_equals :: "'a gsSet \<Rightarrow> 'a gsSet \<Rightarrow> bool" where
  "gsSet_equals s col = (gsSet_getCount s = gsSet_getCount col \<and> gsSet_isSubsetOf s col)"

text \<open>
  \<^verbatim>\<open>goog.structs.Map\<close> keeps its keys in the order of their first insertion; \<^verbatim>\<open>set\<close> on a
  key that is present replaces the value where it stands. It is an association list
  updated by \<^const>\<open>AList.update\<close>. \<^verbatim>\<open>get(key, null)\<close> is \<open>gsMap_get\<close>, with \<open>None\<close> for
  the default \<^verbatim>\<open>null\<close>.
\<close>

type_synonym ('k, 'a) gsMap = "('k \<times> 'a) list"

definition gsMap_new :: "('k, 'a) gsMap" where
  "gsMap_new = []"

definition gsMap_set :: "('k, 'a) gsMap \<Rightarrow> 'k \<Rightarrow> 'a \<Rightarrow> ('k, 'a) gsMap" where
  "gsMap_set m k v = AList.update k v m"

definition gsMap_get :: "('k, 'a) gsMap \<Rightarrow> 'k \<Rightarrow> 'a option" where
  "gsMap_get m k = map_of m k"

definition gsMap_containsKey :: "('k, 'a) gsMap \<Rightarrow> 'k \<Rightarrow> bool" where
  "gsMap_containsKey m k = (k \<in> set (map fst m))"

definition gsMap_getValues :: "('k, 'a) gsMap \<Rightarrow> 'a list" where
  "gsMap_getValues m = map snd m"

section \<open>JavaScript values and objects\<close>

text \<open>
  A payload slot holds \<^verbatim>\<open>undefined\<close>, \<^verbatim>\<open>null\<close>, a primitive value (left abstract: the
  code only stores and copies it), a plain object, or a built-in object of the host. A
  plain object is the list of its own properties in insertion order. \<open>Builtin k\<close> is the
  built-in object that \<^verbatim>\<open>Object.prototype\<close> holds under the name \<open>k\<close> (the function \<^verbatim>\<open>Object\<close>
  under \<^verbatim>\<open>constructor\<close>, \<^verbatim>\<open>Object.prototype\<close> itself under \<^verbatim>\<open>__proto__\<close>).
\<close>

datatype 'v jsval =
  Undefined | Null | Prim 'v | Obj "(string \<times> 'v jsval) list" | Builtin string

type_synonym 'v jsobj = "(string \<times> 'v jsval) list"

text \<open>The own property of a plain object under a name, \<^verbatim>\<open>undefined\<close> when it has none.\<close>

definition obj_get :: "'v jsobj \<Rightarrow> string \<Rightarrow> 'v jsval" where
  "obj_get obj k = (case map_of obj k of None \<Rightarrow> Undefined | Some v \<Rightarrow> v)"

text \<open>
  The names of the members of \<^verbatim>\<open>Object.prototype\<close>, as the language defines it: those of
  ECMAScript 5 (15.2.4) and the legacy ones of its Annex B that browsers have.
\<close>

definition objectPrototypeNames :: "string list" where
  "objectPrototypeNames =
     [''constructor'', ''toString'', ''toLocaleString'', ''valueOf'', ''hasOwnProperty'',
      ''isPrototypeOf'', ''propertyIsEnumerable'', ''__proto__'', ''__defineGetter__'',
      ''__defineSetter__'', ''__lookupGetter__'', ''__lookupSetter__'']"

text \<open>
  The read \<^verbatim>\<open>obj[k]\<close> on a plain object: the own property when there is one; otherwise
  what the object inherits from \<^verbatim>\<open>Object.prototype\<close>, a built-in object under the name of a
  member and \<^verbatim>\<open>undefined\<close> under any other name.
\<close>

definition js_get :: "'v jsobj \<Rightarrow> string \<Rightarrow> 'v jsval" where
  "js_get obj k =
     (case map_of obj k of
        Some v \<Rightarrow> v
      | None \<Rightarrow> if k \<in> set objectPrototypeNames then Builtin k else Undefined)"

text \<open>
  The write \<^verbatim>\<open>obj[k] = v\<close> on a plain object creates or replaces an own property. (The
  setter behind the legacy name \<^verbatim>\<open>__proto__\<close> is not modelled.)
\<close>

definition obj_set :: "'v jsobj \<Rightarrow> string \<Rightarrow> 'v jsval \<Rightarrow> 'v jsobj" where
  "obj_set obj k v = AList.update k v obj"

text \<open>The property names a \<^verbatim>\<open>for (k in obj)\<close> loop visits.\<close>

definition obj_keys :: "'v jsobj \<Rightarrow> string list" where
  "obj_keys obj = remdups (map fst obj)"

fun isDefAndNotNull :: "'v jsval \<Rightarrow> bool" where
  "isDefAndNotNull Undefined = False"
| "isDefAndNotNull Null = False"
| "isDefAndNotNull _ = True"

section \<open>Errors\<close>

text \<open>
  Modelled from the spec: \<^verbatim>\<open>lf.Exception.Type\<close>, whose source file is not among the
  sources; these are the error kinds of the specification's section 7.
\<close>

datatype exnType =
  NOT_FOUND | SYNTAX | CONSTRAINT | TYPE' | SCOPE | STORE | CANCELLED | UNKNOWN

text \<open>
  What a call can throw: a failed \<^verbatim>\<open>goog.asserts.assert\<close> (assertions enabled, as in an
  uncompiled build), the \<^verbatim>\<open>TypeError\<close> of a property read on \<^verbatim>\<open>undefined\<close> or \<^verbatim>\<open>null\<close>,
  and \<^verbatim>\<open>new lf.Exception(type, message)\<close>.
\<close>

datatype error = AssertionError | TypeError | Exception exnType string

section \<open>Rows, columns, entries and relations\<close>

text \<open>
  Modelled from the spec: \<^verbatim>\<open>lf.Row\<close> (an id and a payload object) and \<^verbatim>\<open>lf.schema.Column\<close>
  (\<^verbatim>\<open>getName()\<close>, \<^verbatim>\<open>getTable().getName()\<close>, \<^verbatim>\<open>getAlias()\<close>, the alias \<open>None\<close> when it is
  \<^verbatim>\<open>null\<close>); their source files are not among the sources.
\<close>

record 'v Row =
  Row_id :: int
  payload :: "'v jsobj"

record column =
  getName :: string
  getTableName :: string
  getAlias :: "string option"

record 'v relationEntry =
  row :: "'v Row"
  entry_id :: nat
  isPrefixApplied' :: bool

record 'v relation =
  entries :: "'v relationEntry list"
  tables' :: "string gsSet"

definition Relation_new :: "'v relationEntry list \<Rightarrow> string list \<Rightarrow> 'v relation" where
  "Relation_new es tables = \<lparr>entries = es, tables' = gsSet_new tables\<rparr>"

definition isCompatible :: "'v relation \<Rightarrow> 'v relation \<Rightarrow> bool" where
  "isCompatible this relation = gsSet_equals (tables' this) (tables' relation)"

definition assertCompatible' :: "'v relation \<Rightarrow> 'v relation \<Rightarrow> error + unit" where
  "assertCompatible' lhs rhs = (if isCompatible lhs rhs then Inr () else Inl AssertionError)"

definition getTables :: "'v relation \<Rightarrow> string list" where
  "getTables this = gsSet_getValues (tables' this)"

definition isPrefixApplied :: "'v relation \<Rightarrow> bool" where
  "isPrefixApplied this = (gsSet_getCount (tables' this) > 1)"

definition getPayloads :: "'v relation \<Rightarrow> 'v jsobj list" where
  "getPayloads this = map (\<lambda>entry. payload (row entry)) (entries this)"

definition getRowIds :: "'v relation \<Rightarrow> int list" where
  "getRowIds this = map (\<lambda>entry. Row_id (row entry)) (entries this)"

text \<open>
  The static \<^verbatim>\<open>lf.proc.Relation.emptyRelation_\<close> is passed in and returned: \<open>None\<close> is
  \<^verbatim>\<open>null\<close>, the value before the first call.
\<close>

definition createEmpty :: "'v relation option \<Rightarrow> 'v relation \<times> 'v relation option" where
  "createEmpty emptyRelation' =
     (case emptyRelation' of
        None \<Rightarrow> (let r = Relation_new [] [] in (r, Some r))
      | Some r \<Rightarrow> (r, Some r))"

subsection \<open>Relation.intersect\<close>

text \<open>The \<^verbatim>\<open>reduce\<close> that counts the entries, asserting compatibility on its way.\<close>

fun totalCount_reduce :: "'v relation \<Rightarrow> 'v relation list \<Rightarrow> nat \<Rightarrow> error + nat" where
  "totalCount_reduce r0 [] soFar = Inr soFar"
| "totalCount_reduce r0 (relation # rest) soFar =
     (case assertCompatible' r0 relation of
        Inl e \<Rightarrow> Inl e
      | Inr _ \<Rightarrow> totalCount_reduce r0 rest (soFar + length (entries relation)))"

text \<open>The map from entry id to entry, filled by \<^verbatim>\<open>forEach\<close> over a list of entries.\<close>

definition setAll ::
  "(nat, 'v relationEntry) gsMap \<Rightarrow> 'v relationEntry list \<Rightarrow> (nat, 'v relationEntry) gsMap" where
  "setAll m es = foldl (\<lambda>acc entry. gsMap_set acc (entry_id entry) entry) m es"

definition existsInAll :: "(nat, 'v relationEntry) gsMap list \<Rightarrow> 'v relationEntry \<Rightarrow> bool" where
  "existsInAll relationMaps entry =
     list_all (\<lambda>relation. gsMap_containsKey relation (entry_id entry)) relationMaps"

definition intersection_loop ::
  "(nat, 'v relationEntry) gsMap list \<Rightarrow> 'v relationEntry list \<Rightarrow> (nat, 'v relationEntry) gsMap" where
  "intersection_loop relationMaps allEntries =
     foldl (\<lambda>intersection entry.
              if existsInAll relationMaps entry
              then gsMap_set intersection (entry_id entry) entry
              else intersection)
       gsMap_new allEntries"

text \<open>
  \<^verbatim>\<open>allEntries\<close> is allocated with \<^verbatim>\<open>totalCount\<close> slots and filled relation after relation,
  entry after entry: it is the concatenation of the entry lists.
\<close>

definition Relation_intersect ::
  "'v relation option \<Rightarrow> 'v relation list \<Rightarrow> (error + 'v relation) \<times> 'v relation option" where
  "Relation_intersect emptyRelation' relations =
     (case relations of
        [] \<Rightarrow> (case createEmpty emptyRelation' of (r, st) \<Rightarrow> (Inr r, st))
      | r0 # _ \<Rightarrow>
          (case totalCount_reduce r0 relations 0 of
             Inl e \<Rightarrow> (Inl e, emptyRelation')
           | Inr totalCount \<Rightarrow>
               (let allEntries = concat (map entries relations);
                    relationMaps = map (\<lambda>relation. setAll gsMap_new (entries relation)) relations;
                    intersection = intersection_loop relationMaps allEntries
                in (Inr (Relation_new (gsMap_getValues intersection) (gsSet_getValues (tables' r0))),
                    emptyRelation'))))"

subsection \<open>Relation.union\<close>

fun union_forEach ::
  "'v relation \<Rightarrow> 'v relation list \<Rightarrow> (nat, 'v relationEntry) gsMap
     \<Rightarrow> error + (nat, 'v relationEntry) gsMap" where
  "union_forEach r0 [] acc = Inr acc"
| "union_forEach r0 (relation # rest) acc =
     (case assertCompatible' r0 relation of
        Inl e \<Rightarrow> Inl e
      | Inr _ \<Rightarrow> union_forEach r0 rest (setAll acc (entries relation)))"

definition Relation_union ::
  "'v relation option \<Rightarrow> 'v relation list \<Rightarrow> (error + 'v relation) \<times> 'v relation option" where
  "Relation_union emptyRelation' relations =
     (case relations of
        [] \<Rightarrow> (case createEmpty emptyRelation' of (r, st) \<Rightarrow> (Inr r, st))
      | r0 # _ \<Rightarrow>
          (case union_forEach r0 relations gsMap_new of
             Inl e \<Rightarrow> (Inl e, emptyRelation')
           | Inr u \<Rightarrow>
               (Inr (Relation_new (gsMap_getValues u) (gsSet_getValues (tables' r0))),
                emptyRelation')))"

subsection \<open>Vocabulary of the set laws\<close>

text \<open>Every relation of the list is compatible with every relation of the list.\<close>

definition pairwise_compatible :: "'v relation list \<Rightarrow> bool" where
  "pairwise_compatible rs = list_all (\<lambda>r. list_all (isCompatible r) rs) rs"

text \<open>The set of the entry ids of a relation.\<close>

definition entryIds :: "'v relation \<Rightarrow> nat set" where
  "entryIds r = set (map entry_id (entries r))"

subsection \<open>RelationEntry\<close>

text \<open>
  The static counter \<^verbatim>\<open>lf.proc.RelationEntry.id_\<close> is a JavaScript number, passed in and
  returned. Starting from 0, \<^verbatim>\<open>id_++\<close> is exact below \<open>2 ^ 53\<close>; at \<open>2 ^ 53\<close> the sum
  \<open>2 ^ 53 + 1\<close> has no double of its own and rounds back to \<open>2 ^ 53\<close>. The counter never
  gets above \<open>2 ^ 53\<close>.
\<close>

definition js_increment :: "nat \<Rightarrow> nat" where
  "js_increment n = (if n < 2 ^ 53 then n + 1 else n)"

definition getNextId' :: "nat \<Rightarrow> nat \<times> nat" where
  "getNextId' counter = (counter, js_increment counter)"

definition RelationEntry_new :: "nat \<Rightarrow> 'v Row \<Rightarrow> bool \<Rightarrow> 'v relationEntry \<times> nat" where
  "RelationEntry_new counter r isPrefixApplied_arg =
     (case getNextId' counter of
        (i, counter1) \<Rightarrow>
          (\<lparr>row = r, entry_id = i, isPrefixApplied' = isPrefixApplied_arg\<rparr>, counter1))"

text \<open>\<^verbatim>\<open>rows.map(...)\<close> in \<^verbatim>\<open>fromRows\<close>: one constructor call per row, in order.\<close>

fun fromRows_map :: "nat \<Rightarrow> 'v Row list \<Rightarrow> bool \<Rightarrow> 'v relationEntry list \<times> nat" where
  "fromRows_map counter [] p = ([], counter)"
| "fromRows_map counter (r # rows) p =
     (case RelationEntry_new counter r p of
        (e, counter1) \<Rightarrow>
          (case fromRows_map counter1 rows p of (es, counter2) \<Rightarrow> (e # es, counter2)))"

definition fromRows :: "nat \<Rightarrow> 'v Row list \<Rightarrow> string list \<Rightarrow> 'v relation \<times> nat" where
  "fromRows counter rows tables =
     (let isPrefixApplied_arg = (length tables > 1)
      in case fromRows_map counter rows isPrefixApplied_arg of
           (es, counter1) \<Rightarrow> (Relation_new es tables, counter1))"

text \<open>
  \<^verbatim>\<open>getField\<close>. With prefixes, \<^verbatim>\<open>payload[table][column]\<close> throws a \<^verbatim>\<open>TypeError\<close> when
  \<^verbatim>\<open>payload[table]\<close> is \<^verbatim>\<open>undefined\<close> or \<^verbatim>\<open>null\<close>. When \<^verbatim>\<open>payload[table]\<close> is a primitive
  or a built-in object (inherited, for a table named like a member of
  \<^verbatim>\<open>Object.prototype\<close>), what the second read gives is the host's: the length of a string,
  a method, a property written onto the built-in object earlier. It is the parameter
  \<open>hostGet\<close>. The column's alias is not looked at.
\<close>

definition getField ::
  "('v jsval \<Rightarrow> string \<Rightarrow> 'v jsval) \<Rightarrow> 'v relationEntry \<Rightarrow> column \<Rightarrow> error + 'v jsval" where
  "getField hostGet this col =
     (if isPrefixApplied' this then
        (case js_get (payload (row this)) (getTableName col) of
           Undefined \<Rightarrow> Inl TypeError
         | Null \<Rightarrow> Inl TypeError
         | Prim p \<Rightarrow> Inr (hostGet (Prim p) (getName col))
         | Obj container \<Rightarrow> Inr (js_get container (getName col))
         | Builtin b \<Rightarrow> Inr (hostGet (Builtin b) (getName col)))
      else Inr (js_get (payload (row this)) (getName col)))"

text \<open>
  \<^verbatim>\<open>setField\<close> changes the payload of the entry's row in place; the entry is returned
  with the new payload. When \<^verbatim>\<open>payload[table]\<close> is a primitive or an inherited built-in
  object, the container is not created and the assignment does not reach the payload:
  on a primitive it has no effect, on a built-in object it changes that object of the
  host. The entry is returned as it was.
\<close>

definition set_payload :: "'v relationEntry \<Rightarrow> 'v jsobj \<Rightarrow> 'v relationEntry" where
  "set_payload this p = this\<lparr>row := (row this)\<lparr>payload := p\<rparr>\<rparr>"

definition setField :: "'v relationEntry \<Rightarrow> column \<Rightarrow> 'v jsval \<Rightarrow> 'v relationEntry" where
  "setField this col v =
     (case getAlias col of
        Some alias \<Rightarrow> set_payload this (obj_set (payload (row this)) alias v)
      | None \<Rightarrow>
          (if isPrefixApplied' this then
             (let containerObj = js_get (payload (row this)) (getTableName col)
              in if \<not> isDefAndNotNull containerObj then
                   set_payload this
                     (obj_set (payload (row this)) (getTableName col)
                        (Obj (obj_set [] (getName col) v)))
                 else
                   (case containerObj of
                      Obj container \<Rightarrow>
                        set_payload this
                          (obj_set (payload (row this)) (getTableName col)
                             (Obj (obj_set container (getName col) v)))
                    | _ \<Rightarrow> this))
           else set_payload this (obj_set (payload (row this)) (getName col) v)))"

text \<open>
  \<^verbatim>\<open>combineEntries\<close>. \<^verbatim>\<open>entryTables[0]\<close> of an empty array is \<^verbatim>\<open>undefined\<close>, which names the
  property \<^verbatim>\<open>"undefined"\<close>. \<^verbatim>\<open>lf.Row.DUMMY_ID\<close> is a constant of \<^verbatim>\<open>lf.Row\<close>, whose source
  file is not among the sources: it is the parameter \<open>DUMMY_ID\<close>.
\<close>

definition entryTables_0 :: "string list \<Rightarrow> string" where
  "entryTables_0 entryTables = (case entryTables of [] \<Rightarrow> ''undefined'' | t # _ \<Rightarrow> t)"

definition mergeEntry :: "'v jsobj \<Rightarrow> 'v relationEntry \<Rightarrow> string list \<Rightarrow> 'v jsobj" where
  "mergeEntry result entry entryTables =
     (if isPrefixApplied' entry then
        foldl (\<lambda>res prefix. obj_set res prefix (obj_get (payload (row entry)) prefix))
          result (obj_keys (payload (row entry)))
      else obj_set result (entryTables_0 entryTables) (Obj (payload (row entry))))"

definition combineEntries ::
  "int \<Rightarrow> nat \<Rightarrow> 'v relationEntry \<Rightarrow> string list \<Rightarrow> 'v relationEntry \<Rightarrow> string list
     \<Rightarrow> 'v relationEntry \<times> nat" where
  "combineEntries DUMMY_ID counter leftEntry leftEntryTables rightEntry rightEntryTables =
     (let result = [];
          result = mergeEntry result leftEntry leftEntryTables;
          result = mergeEntry result rightEntry rightEntryTables;
          r = \<lparr>Row_id = DUMMY_ID, payload = result\<rparr>
      in RelationEntry_new counter r True)"



subsection \<open>Sequences of entry constructions\<close>

text \<open>
  The three places that construct entries: the constructor itself, \<^verbatim>\<open>fromRows\<close> and
  \<^verbatim>\<open>combineEntries\<close>. \<open>construct\<close> runs a sequence of them on the counter and returns
  the entries built, in the order of their construction.
\<close>

datatype 'v construction =
    New "'v Row" bool
  | FromRows "'v Row list" "string list"
  | Combine int "'v relationEntry" "string list" "'v relationEntry" "string list"

fun construct1 :: "nat \<Rightarrow> 'v construction \<Rightarrow> 'v relationEntry list \<times> nat" where
  "construct1 counter (New r p) =
     (case RelationEntry_new counter r p of (e, counter1) \<Rightarrow> ([e], counter1))"
| "construct1 counter (FromRows rows tables) =
     (case fromRows counter rows tables of (rel, counter1) \<Rightarrow> (entries rel, counter1))"
| "construct1 counter (Combine d l lt r rt) =
     (case combineEntries d counter l lt r rt of (e, counter1) \<Rightarrow> ([e], counter1))"

fun construct :: "nat \<Rightarrow> 'v construction list \<Rightarrow> 'v relationEntry list \<times> nat" where
  "construct counter [] = ([], counter)"
| "construct counter (c # cs) =
     (case construct1 counter c of
        (es, counter1) \<Rightarrow>
          (case construct counter1 cs of (es', counter2) \<Rightarrow> (es @ es', counter2)))"

text \<open>The number of entries a construction builds.\<close>

fun built :: "'v construction \<Rightarrow> nat" where
  "built (New r p) = 1"
| "built (FromRows rows tables) = length rows"
| "built (Combine d l lt r rt) = 1"

section \<open>The service registry\<close>

text \<open>
  Modelled from the spec: \<^verbatim>\<open>lf.service.ServiceId\<close>, whose source file is not among the
  sources; a typed identifier of which the registry uses \<^verbatim>\<open>toString()\<close> only. A service
  is a non-null object (\<^verbatim>\<open>!T\<close>), of the type \<open>'s\<close>.
\<close>

datatype serviceId = ServiceId (toString: string)

record 's global =
  services' :: "(string, 's) gsMap"

definition Global_new :: "'s global" where
  "Global_new = \<lparr>services' = gsMap_new\<rparr>"

definition registerService :: "'s global \<Rightarrow> serviceId \<Rightarrow> 's \<Rightarrow> 's \<times> 's global" where
  "registerService this sid service =
     (service, this\<lparr>services' := gsMap_set (services' this) (toString sid) service\<rparr>)"

definition getService :: "'s global \<Rightarrow> serviceId \<Rightarrow> error + 's" where
  "getService this sid =
     (case gsMap_get (services' this) (toString sid) of
        None \<Rightarrow> Inl (Exception NOT_FOUND (toString sid))
      | Some service \<Rightarrow> Inr service)"

definition isRegistered :: "'s global \<Rightarrow> serviceId \<Rightarrow> bool" where
  "isRegistered this sid = gsMap_containsKey (services' this) (toString sid)"

text \<open>A history of registrations, applied in order.\<close>

fun registerAll :: "'s global \<Rightarrow> (serviceId \<times> 's) list \<Rightarrow> 's global" where
  "registerAll g [] = g"
| "registerAll g ((sid, service) # rest) = registerAll (snd (registerService g sid service)) rest"

section \<open>The insert builder\<close>

text \<open>
  Modelled from the spec: \<^verbatim>\<open>lf.query.InsertBuilder\<close>, of which the sources hold the tests
  only. From the specification's sections 4.9, 7 and 8 (S2): \<^verbatim>\<open>into\<close> and \<^verbatim>\<open>values\<close> fail
  with \<^verbatim>\<open>SYNTAX\<close> when called a second time; \<^verbatim>\<open>exec\<close> fails with \<^verbatim>\<open>SYNTAX\<close> when either is
  missing and with \<^verbatim>\<open>CONSTRAINT\<close> when replacing is allowed on a table that has no
  primary key. A table is its name and its optional primary key.
\<close>

record tableSchema =
  tableName :: string
  primaryKey :: "string list option"

record 'r insertBuilder =
  allowReplace :: bool
  into' :: "tableSchema option"
  values' :: "'r list option"

definition InsertBuilder_new :: "bool \<Rightarrow> 'r insertBuilder" where
  "InsertBuilder_new opt_allowReplace =
     \<lparr>allowReplace = opt_allowReplace, into' = None, values' = None\<rparr>"

definition InsertBuilder_into ::
  "'r insertBuilder \<Rightarrow> tableSchema \<Rightarrow> exnType + 'r insertBuilder" where
  "InsertBuilder_into this t =
     (case into' this of
        Some _ \<Rightarrow> Inl SYNTAX
      | None \<Rightarrow> Inr (this\<lparr>into' := Some t\<rparr>))"

definition InsertBuilder_values ::
  "'r insertBuilder \<Rightarrow> 'r list \<Rightarrow> exnType + 'r insertBuilder" where
  "InsertBuilder_values this rows =
     (case values' this of
        Some _ \<Rightarrow> Inl SYNTAX
      | None \<Rightarrow> Inr (this\<lparr>values' := Some rows\<rparr>))"

definition InsertBuilder_exec ::
  "'r insertBuilder \<Rightarrow> exnType + (tableSchema \<times> 'r list)" where
  "InsertBuilder_exec this =
     (case into' this of
        None \<Rightarrow> Inl SYNTAX
      | Some t \<Rightarrow>
          (case values' this of
             None \<Rightarrow> Inl SYNTAX
           | Some rows \<Rightarrow>
               (if allowReplace this \<and> primaryKey t = None then Inl CONSTRAINT
                else Inr (t, rows))))"

section \<open>The containers: what they hold\<close>

lemma getValues_foldl_add:
  "set (gsSet_getValues (foldl gsSet_add s xs)) = set (gsSet_getValues s) \<union> set xs"
  by (induction xs arbitrary: s) (auto simp: gsSet_add.rep_eq)

lemma set_getValues_new: "set (gsSet_getValues (gsSet_new xs)) = set xs"
  by (simp add: gsSet_new_def getValues_foldl_add gsSet_empty.rep_eq)

lemma distinct_getValues: "distinct (gsSet_getValues s)"
  using gsSet_getValues [of s] by simp

lemma getValues_foldl_add_distinct:
  "distinct (gsSet_getValues s @ xs) \<Longrightarrow>
     gsSet_getValues (foldl gsSet_add s xs) = gsSet_getValues s @ xs"
  by (induction xs arbitrary: s) (auto simp: gsSet_add.rep_eq)

lemma new_getValues: "gsSet_new (gsSet_getValues s) = s"
proof -
  have "gsSet_getValues (gsSet_new (gsSet_getValues s)) = gsSet_getValues s"
    unfolding gsSet_new_def
    using getValues_foldl_add_distinct [of gsSet_empty "gsSet_getValues s"]
    by (simp add: gsSet_empty.rep_eq distinct_getValues)
  then show ?thesis by (simp add: gsSet_getValues_inject)
qed

lemma gsSet_equals_iff:
  "gsSet_equals s t \<longleftrightarrow> set (gsSet_getValues s) = set (gsSet_getValues t)"
proof
  assume eq: "gsSet_equals s t"
  then have len: "length (gsSet_getValues s) = length (gsSet_getValues t)"
    and sub: "set (gsSet_getValues s) \<subseteq> set (gsSet_getValues t)"
    by (auto simp: gsSet_equals_def gsSet_isSubsetOf_def gsSet_getCount_def gsSet_contains_def
        list_all_iff split: if_splits)
  have "card (set (gsSet_getValues s)) = card (set (gsSet_getValues t))"
    using len by (simp add: distinct_card distinct_getValues)
  with sub show "set (gsSet_getValues s) = set (gsSet_getValues t)"
    by (simp add: card_subset_eq)
next
  assume eq: "set (gsSet_getValues s) = set (gsSet_getValues t)"
  then have "card (set (gsSet_getValues s)) = card (set (gsSet_getValues t))" by simp
  then have "length (gsSet_getValues s) = length (gsSet_getValues t)"
    by (simp add: distinct_card distinct_getValues)
  with eq show "gsSet_equals s t"
    by (simp add: gsSet_equals_def gsSet_isSubsetOf_def gsSet_getCount_def gsSet_contains_def
        list_all_iff)
qed

lemma isCompatible_iff: "isCompatible r s \<longleftrightarrow> set (getTables r) = set (getTables s)"
  by (simp add: isCompatible_def getTables_def gsSet_equals_iff)

lemma union_forEach_ok:
  "\<forall>r\<in>set rs. isCompatible r0 r \<Longrightarrow>
     union_forEach r0 rs acc = Inr (setAll acc (concat (map entries rs)))"
  by (induction rs arbitrary: acc) (auto simp: assertCompatible'_def setAll_def)

lemma union_forEach_fail:
  "\<exists>r\<in>set rs. \<not> isCompatible r0 r \<Longrightarrow> union_forEach r0 rs acc = Inl AssertionError"
  by (induction rs arbitrary: acc) (auto simp: assertCompatible'_def)

lemma totalCount_reduce_ok:
  "\<forall>r\<in>set rs. isCompatible r0 r \<Longrightarrow>
     totalCount_reduce r0 rs soFar = Inr (soFar + length (concat (map entries rs)))"
  by (induction rs arbitrary: soFar) (auto simp: assertCompatible'_def)

lemma totalCount_reduce_fail:
  "\<exists>r\<in>set rs. \<not> isCompatible r0 r \<Longrightarrow> totalCount_reduce r0 rs soFar = Inl AssertionError"
  by (induction rs arbitrary: soFar) (auto simp: assertCompatible'_def)

section \<open>The loops of union and intersect\<close>

lemma set_update_subset: "set (AList.update k v al) \<subseteq> insert (k, v) (set al)"
  by (induction al) auto

lemma setAll_keys: "fst ` set (setAll m es) = fst ` set m \<union> entry_id ` set es"
  by (induction es arbitrary: m) (auto simp: setAll_def gsMap_set_def dom_update)

lemma setAll_distinct: "distinct (map fst m) \<Longrightarrow> distinct (map fst (setAll m es))"
  by (induction es arbitrary: m) (auto simp: setAll_def gsMap_set_def distinct_update)

lemma setAll_keyed:
  "\<forall>(k, v)\<in>set m. k = entry_id v \<and> v \<in> S \<Longrightarrow> set es \<subseteq> S \<Longrightarrow>
     \<forall>(k, v)\<in>set (setAll m es). k = entry_id v \<and> v \<in> S"
proof (induction es arbitrary: m)
  case Nil
  then show ?case by (simp add: setAll_def)
next
  case (Cons e es)
  have "\<forall>(k, v)\<in>set (gsMap_set m (entry_id e) e). k = entry_id v \<and> v \<in> S"
    using Cons.prems set_update_subset [of "entry_id e" e m]
    by (auto simp: gsMap_set_def)
  from Cons.IH [OF this] Cons.prems(2) show ?case
    by (simp add: setAll_def)
qed

lemma getValues_setAll_new:
  assumes "set es \<subseteq> S"
  shows "map entry_id (gsMap_getValues (setAll gsMap_new es)) = map fst (setAll gsMap_new es)"
    and "distinct (map entry_id (gsMap_getValues (setAll gsMap_new es)))"
    and "set (gsMap_getValues (setAll gsMap_new es)) \<subseteq> S"
    and "set (map entry_id (gsMap_getValues (setAll gsMap_new es))) = entry_id ` set es"
proof -
  have keyed: "\<forall>(k, v)\<in>set (setAll gsMap_new es). k = entry_id v \<and> v \<in> S"
    using setAll_keyed [of gsMap_new S es] assms by (simp add: gsMap_new_def)
  then show eq: "map entry_id (gsMap_getValues (setAll gsMap_new es)) = map fst (setAll gsMap_new es)"
    by (auto simp: gsMap_getValues_def)
  show "distinct (map entry_id (gsMap_getValues (setAll gsMap_new es)))"
    unfolding eq by (rule setAll_distinct) (simp add: gsMap_new_def)
  show "set (gsMap_getValues (setAll gsMap_new es)) \<subseteq> S"
    using keyed by (auto simp: gsMap_getValues_def)
  show "set (map entry_id (gsMap_getValues (setAll gsMap_new es))) = entry_id ` set es"
    unfolding eq by (simp add: setAll_keys gsMap_new_def)
qed

lemma intersection_loop_filter:
  "intersection_loop maps es = setAll gsMap_new (filter (existsInAll maps) es)"
proof -
  have "foldl (\<lambda>intersection entry. if existsInAll maps entry
              then gsMap_set intersection (entry_id entry) entry else intersection) m es
        = setAll m (filter (existsInAll maps) es)" for m
    by (induction es arbitrary: m) (simp_all add: setAll_def)
  then show ?thesis by (simp add: intersection_loop_def)
qed

lemma existsInAll_iff:
  "existsInAll (map (\<lambda>relation. setAll gsMap_new (entries relation)) rs) e
     \<longleftrightarrow> (\<forall>r\<in>set rs. entry_id e \<in> entryIds r)"
  by (simp add: existsInAll_def list_all_iff gsMap_containsKey_def setAll_keys gsMap_new_def
      entryIds_def)

lemma tables_Relation_new_getValues:
  "tables' (Relation_new es (gsSet_getValues s)) = s"
  by (simp add: Relation_new_def new_getValues)

lemma union_result:
  assumes "rs \<noteq> []" and "\<forall>r\<in>set rs. isCompatible (hd rs) r"
  shows "\<exists>res. Relation_union er rs = (Inr res, er)
     \<and> tables' res = tables' (hd rs)
     \<and> distinct (map entry_id (entries res))
     \<and> set (entries res) \<subseteq> (\<Union>r\<in>set rs. set (entries r))
     \<and> entryIds res = (\<Union>r\<in>set rs. entryIds r)"
proof -
  obtain r0 rest where rs: "rs = r0 # rest" using assms(1) by (cases rs) auto
  let ?es = "concat (map entries rs)"
  let ?res = "Relation_new (gsMap_getValues (setAll gsMap_new ?es)) (gsSet_getValues (tables' r0))"
  have run: "Relation_union er rs = (Inr ?res, er)"
    using union_forEach_ok [of rs r0 gsMap_new] assms(2)
    by (simp add: Relation_union_def rs)
  have sub: "set ?es \<subseteq> (\<Union>r\<in>set rs. set (entries r))" by auto
  have ent: "entries ?res = gsMap_getValues (setAll gsMap_new ?es)"
    by (simp add: Relation_new_def)
  have "tables' ?res = tables' (hd rs)"
    by (simp add: tables_Relation_new_getValues rs)
  moreover have "distinct (map entry_id (entries ?res))"
    unfolding ent by (rule getValues_setAll_new(2) [OF sub])
  moreover have "set (entries ?res) \<subseteq> (\<Union>r\<in>set rs. set (entries r))"
    unfolding ent by (rule getValues_setAll_new(3) [OF sub])
  moreover have "entryIds ?res = (\<Union>r\<in>set rs. entryIds r)"
    unfolding entryIds_def ent getValues_setAll_new(4) [OF sub] by auto
  ultimately show ?thesis using run by blast
qed

lemma intersect_result:
  assumes "rs \<noteq> []" and "\<forall>r\<in>set rs. isCompatible (hd rs) r"
  shows "\<exists>res. Relation_intersect er rs = (Inr res, er)
     \<and> tables' res = tables' (hd rs)
     \<and> distinct (map entry_id (entries res))
     \<and> set (entries res) \<subseteq> (\<Union>r\<in>set rs. set (entries r))
     \<and> entryIds res = (\<Inter>r\<in>set rs. entryIds r)"
proof -
  obtain r0 rest where rs: "rs = r0 # rest" using assms(1) by (cases rs) auto
  let ?maps = "map (\<lambda>relation. setAll gsMap_new (entries relation)) rs"
  let ?es = "filter (existsInAll ?maps) (concat (map entries rs))"
  let ?res = "Relation_new (gsMap_getValues (setAll gsMap_new ?es)) (gsSet_getValues (tables' r0))"
  have run: "Relation_intersect er rs = (Inr ?res, er)"
    using totalCount_reduce_ok [of rs r0 0] assms(2)
    by (simp add: Relation_intersect_def rs intersection_loop_filter)
  have sub: "set ?es \<subseteq> (\<Union>r\<in>set rs. set (entries r))" by auto
  have ent: "entries ?res = gsMap_getValues (setAll gsMap_new ?es)"
    by (simp add: Relation_new_def)
  have "tables' ?res = tables' (hd rs)"
    by (simp add: tables_Relation_new_getValues rs)
  moreover have "distinct (map entry_id (entries ?res))"
    unfolding ent by (rule getValues_setAll_new(2) [OF sub])
  moreover have "set (entries ?res) \<subseteq> (\<Union>r\<in>set rs. set (entries r))"
    unfolding ent by (rule getValues_setAll_new(3) [OF sub])
  moreover have "entryIds ?res = (\<Inter>r\<in>set rs. entryIds r)"
  proof -
    have "entry_id ` set ?es = (\<Inter>r\<in>set rs. entryIds r)"
    proof (intro equalityI subsetI)
      fix i assume "i \<in> entry_id ` set ?es"
      then show "i \<in> (\<Inter>r\<in>set rs. entryIds r)"
        by (auto simp: existsInAll_iff)
    next
      fix i assume i: "i \<in> (\<Inter>r\<in>set rs. entryIds r)"
      then have "i \<in> entryIds r0" by (simp add: rs)
      then obtain e where e: "e \<in> set (entries r0)" "entry_id e = i"
        by (auto simp: entryIds_def)
      have "existsInAll ?maps e" using i e(2) by (simp add: existsInAll_iff)
      with e show "i \<in> entry_id ` set ?es"
        by (force simp: rs)
    qed
    then show ?thesis
      unfolding entryIds_def ent getValues_setAll_new(4) [OF sub] by simp
  qed
  ultimately show ?thesis using run by blast
qed

section \<open>The service registry: lookups and failures\<close>

lemma gsMap_get_set:
  "gsMap_get (gsMap_set m k v) k' = (if k' = k then Some v else gsMap_get m k')"
  by (simp add: gsMap_get_def gsMap_set_def update_conv')

lemma gsMap_containsKey_get: "gsMap_containsKey m k \<longleftrightarrow> gsMap_get m k \<noteq> None"
  by (simp add: gsMap_containsKey_def gsMap_get_def map_of_eq_None_iff)

lemma services_registerAll:
  "gsMap_get (services' (registerAll g regs)) k =
     (case map_of (rev (map (\<lambda>(i, s). (toString i, s)) regs)) k of
        None \<Rightarrow> gsMap_get (services' g) k
      | Some s \<Rightarrow> Some s)"
proof (induction regs arbitrary: g)
  case Nil
  show ?case by simp
next
  case (Cons reg regs)
  obtain i s where reg: "reg = (i, s)" by (cases reg)
  show ?case
    by (simp add: reg Cons.IH registerService_def gsMap_get_set map_add_def
        split: option.splits)
qed

text \<open>
  C9. \<^verbatim>\<open>registerService\<close> returns the service it was given and makes \<^verbatim>\<open>isRegistered\<close> true
  for its id. After any history of registrations on a registry, \<^verbatim>\<open>getService\<close> returns
  the service of the latest registration under the id (the first match in the reversed
  history) and, with no registration in the history, what the registry answered
  before. \<^verbatim>\<open>getService\<close> throws exactly when nothing is registered under the id, and what
  it throws is \<^verbatim>\<open>NOT_FOUND\<close> with the id as message; a new registry has no service.
\<close>

theorem getService_latest_or_NOT_FOUND:
  "fst (registerService g sid service) = service
   \<and> isRegistered (snd (registerService g sid service)) sid
   \<and> getService (snd (registerService g sid service)) sid = Inr service
   \<and> getService (registerAll g regs) sid =
       (case map_of (rev (map (\<lambda>(i, s). (toString i, s)) regs)) (toString sid) of
          None \<Rightarrow> getService g sid
        | Some s \<Rightarrow> Inr s)
   \<and> ((\<exists>e. getService g sid = Inl e) \<longleftrightarrow> \<not> isRegistered g sid)
   \<and> (getService g sid = Inl (Exception NOT_FOUND (toString sid)) \<longleftrightarrow> \<not> isRegistered g sid)
   \<and> \<not> isRegistered (Global_new :: 's global) sid"
proof -
  have "getService (registerAll g regs) sid =
       (case map_of (rev (map (\<lambda>(i, s). (toString i, s)) regs)) (toString sid) of
          None \<Rightarrow> getService g sid
        | Some s \<Rightarrow> Inr s)"
    by (simp add: getService_def services_registerAll split: option.splits)
  moreover have "fst (registerService g sid service) = service"
    by (simp add: registerService_def)
  moreover have "isRegistered (snd (registerService g sid service)) sid"
    by (simp add: registerService_def isRegistered_def gsMap_containsKey_get gsMap_get_set)
  moreover have "getService (snd (registerService g sid service)) sid = Inr service"
    by (simp add: registerService_def getService_def gsMap_get_set)
  moreover have "(\<exists>e. getService g sid = Inl e) \<longleftrightarrow> \<not> isRegistered g sid"
    by (simp add: getService_def isRegistered_def gsMap_containsKey_get split: option.splits)
  moreover have
    "getService g sid = Inl (Exception NOT_FOUND (toString sid)) \<longleftrightarrow> \<not> isRegistered g sid"
    by (simp add: getService_def isRegistered_def gsMap_containsKey_get split: option.splits)
  moreover have "\<not> isRegistered (Global_new :: 's global) sid"
    by (simp add: isRegistered_def Global_new_def gsMap_new_def gsMap_containsKey_def)
  ultimately show ?thesis by blast
qed

theorem getService_latest_or_NOT_FOUND_witness:
  "getService
     (registerAll (Global_new :: nat global)
        [(ServiceId ''cache'', 1), (ServiceId ''schema'', 2), (ServiceId ''cache'', 3)])
     (ServiceId ''cache'') = Inr 3
   \<and> getService (Global_new :: nat global) (ServiceId ''cache'')
       = Inl (Exception NOT_FOUND ''cache'')"
  using getService_latest_or_NOT_FOUND
    [where g = "Global_new :: nat global" and sid = "ServiceId ''cache''" and service = 0
      and regs = "[(ServiceId ''cache'', 1), (ServiceId ''schema'', 2), (ServiceId ''cache'', 3)]"]
  by (auto simp del: registerAll.simps)

section \<open>The insert builder: misuse\<close>

text \<open>
  C8. On a builder on which \<^verbatim>\<open>into\<close> has not been called, \<^verbatim>\<open>exec\<close> fails with \<^verbatim>\<open>SYNTAX\<close>;
  likewise when \<^verbatim>\<open>values\<close> has not been called; with both called, replacing allowed and
  a table without primary key, \<^verbatim>\<open>exec\<close> fails with \<^verbatim>\<open>CONSTRAINT\<close>. A first \<^verbatim>\<open>into\<close> (or
  \<^verbatim>\<open>values\<close>) succeeds and records its argument; a second one fails with \<^verbatim>\<open>SYNTAX\<close> at the
  call. A new builder has neither.
\<close>

theorem insertBuilder_misuse:
  "InsertBuilder_exec (b\<lparr>into' := None\<rparr>) = Inl SYNTAX
   \<and> InsertBuilder_exec (b\<lparr>values' := None\<rparr>) = Inl SYNTAX
   \<and> InsertBuilder_exec
       (b\<lparr>allowReplace := True, into' := Some (t\<lparr>primaryKey := None\<rparr>), values' := Some rows\<rparr>)
       = Inl CONSTRAINT
   \<and> InsertBuilder_into (b\<lparr>into' := None\<rparr>) t = Inr (b\<lparr>into' := Some t\<rparr>)
   \<and> InsertBuilder_into (b\<lparr>into' := Some t\<rparr>) u = Inl SYNTAX
   \<and> InsertBuilder_values (b\<lparr>values' := None\<rparr>) rows = Inr (b\<lparr>values' := Some rows\<rparr>)
   \<and> InsertBuilder_values (b\<lparr>values' := Some rows\<rparr>) rows_again = Inl SYNTAX
   \<and> into' (InsertBuilder_new a :: 'r insertBuilder) = None
   \<and> values' (InsertBuilder_new a :: 'r insertBuilder) = None"
  by (simp add: InsertBuilder_exec_def InsertBuilder_into_def InsertBuilder_values_def
      InsertBuilder_new_def split: option.splits)

theorem insertBuilder_misuse_witness:
  "InsertBuilder_exec (InsertBuilder_new False :: nat insertBuilder) = Inl SYNTAX
   \<and> InsertBuilder_into
       ((InsertBuilder_new False :: nat insertBuilder)
          \<lparr>into' := Some \<lparr>tableName = ''Job'', primaryKey = Some [''id'']\<rparr>\<rparr>)
       \<lparr>tableName = ''Job'', primaryKey = Some [''id'']\<rparr> = Inl SYNTAX"
  using insertBuilder_misuse
    [where b = "InsertBuilder_new False :: nat insertBuilder"
      and t = "\<lparr>tableName = ''Job'', primaryKey = Some [''id'']\<rparr>" and rows = "[]"
      and u = "\<lparr>tableName = ''Job'', primaryKey = Some [''id'']\<rparr>" and rows_again = "[]"
      and a = False]
  by (simp add: InsertBuilder_new_def)

section \<open>Compatibility\<close>

lemma getTables_Relation_new: "set (getTables (Relation_new es ts)) = set ts"
  by (simp add: getTables_def Relation_new_def set_getValues_new)

lemma entries_Relation_new: "entries (Relation_new es ts) = es"
  by (simp add: Relation_new_def)

lemma isCompatible_Relation_new:
  "isCompatible (Relation_new es ts) (Relation_new es' ts') \<longleftrightarrow> set ts = set ts'"
  by (simp add: isCompatible_iff getTables_Relation_new)

lemma union_throws_iff:
  "(\<exists>e. fst (Relation_union er rs) = Inl e) \<longleftrightarrow> (\<exists>r\<in>set rs. \<not> isCompatible (hd rs) r)"
proof (cases "\<exists>r\<in>set rs. \<not> isCompatible (hd rs) r")
  case True
  then obtain r0 rest where rs: "rs = r0 # rest" by (cases rs) auto
  from True show ?thesis
    using union_forEach_fail [of rs r0 gsMap_new]
    by (simp add: Relation_union_def rs)
next
  case False
  show ?thesis
  proof (cases rs)
    case Nil
    then show ?thesis by (simp add: Relation_union_def split: prod.splits)
  next
    case (Cons r0 rest)
    then have "rs \<noteq> []" by simp
    from union_result [OF this, of er] False show ?thesis by auto
  qed
qed

lemma intersect_throws_iff:
  "(\<exists>e. fst (Relation_intersect er rs) = Inl e) \<longleftrightarrow> (\<exists>r\<in>set rs. \<not> isCompatible (hd rs) r)"
proof (cases "\<exists>r\<in>set rs. \<not> isCompatible (hd rs) r")
  case True
  then obtain r0 rest where rs: "rs = r0 # rest" by (cases rs) auto
  from True show ?thesis
    using totalCount_reduce_fail [of rs r0 0]
    by (simp add: Relation_intersect_def rs)
next
  case False
  show ?thesis
  proof (cases rs)
    case Nil
    then show ?thesis by (simp add: Relation_intersect_def split: prod.splits)
  next
    case (Cons r0 rest)
    then have "rs \<noteq> []" by simp
    from intersect_result [OF this, of er] False show ?thesis by auto
  qed
qed

lemma union_throws_AssertionError:
  "fst (Relation_union er rs) = Inl e \<Longrightarrow> e = AssertionError"
proof (cases rs)
  case Nil
  assume "fst (Relation_union er rs) = Inl e"
  with Nil show ?thesis by (simp add: Relation_union_def split: prod.splits)
next
  case (Cons r0 rest)
  assume a: "fst (Relation_union er rs) = Inl e"
  show ?thesis
  proof (cases "\<exists>r\<in>set rs. \<not> isCompatible r0 r")
    case True
    from union_forEach_fail [OF this, of gsMap_new] a show ?thesis
      by (simp add: Relation_union_def Cons)
  next
    case False
    then have "\<forall>r\<in>set rs. isCompatible r0 r" by simp
    from union_forEach_ok [OF this, of gsMap_new] a show ?thesis
      by (simp add: Relation_union_def Cons)
  qed
qed

lemma intersect_throws_AssertionError:
  "fst (Relation_intersect er rs) = Inl e \<Longrightarrow> e = AssertionError"
proof (cases rs)
  case Nil
  assume "fst (Relation_intersect er rs) = Inl e"
  with Nil show ?thesis by (simp add: Relation_intersect_def split: prod.splits)
next
  case (Cons r0 rest)
  assume a: "fst (Relation_intersect er rs) = Inl e"
  show ?thesis
  proof (cases "\<exists>r\<in>set rs. \<not> isCompatible r0 r")
    case True
    from totalCount_reduce_fail [OF this, of 0] a show ?thesis
      by (simp add: Relation_intersect_def Cons)
  next
    case False
    then have "\<forall>r\<in>set rs. isCompatible r0 r" by simp
    from totalCount_reduce_ok [OF this, of 0] a show ?thesis
      by (simp add: Relation_intersect_def Cons Let_def)
  qed
qed

text \<open>
  C3. \<^verbatim>\<open>isCompatible\<close> is true exactly when the two relations have the same set of source
  tables. \<^verbatim>\<open>union\<close> and \<^verbatim>\<open>intersect\<close> throw exactly when some input's table set differs
  from the table set of the first input, and what they throw is the failed assertion;
  when all inputs have one table set, both return a relation.
\<close>

theorem compatibility_assertion:
  "(isCompatible r s \<longleftrightarrow> set (getTables r) = set (getTables s))
   \<and> ((\<exists>e. fst (Relation_union er rs) = Inl e)
        \<longleftrightarrow> (\<exists>x\<in>set rs. set (getTables x) \<noteq> set (getTables (hd rs))))
   \<and> ((\<exists>e. fst (Relation_intersect er rs) = Inl e)
        \<longleftrightarrow> (\<exists>x\<in>set rs. set (getTables x) \<noteq> set (getTables (hd rs))))
   \<and> (\<forall>e. fst (Relation_union er rs) = Inl e \<longrightarrow> e = AssertionError)
   \<and> (\<forall>e. fst (Relation_intersect er rs) = Inl e \<longrightarrow> e = AssertionError)
   \<and> ((\<forall>x\<in>set rs. set (getTables x) = T)
        \<longrightarrow> (\<exists>res. fst (Relation_union er rs) = Inr res)
          \<and> (\<exists>res. fst (Relation_intersect er rs) = Inr res))"
proof -
  have bad: "(\<exists>x\<in>set rs. \<not> isCompatible (hd rs) x)
      \<longleftrightarrow> (\<exists>x\<in>set rs. set (getTables x) \<noteq> set (getTables (hd rs)))"
    by (auto simp: isCompatible_iff)
  have same: "(\<exists>res. fst (Relation_union er rs) = Inr res)
      \<and> (\<exists>res. fst (Relation_intersect er rs) = Inr res)"
    if all: "\<forall>x\<in>set rs. set (getTables x) = T"
  proof -
    have "\<not> (\<exists>x\<in>set rs. \<not> isCompatible (hd rs) x)"
    proof (cases rs)
      case Nil
      then show ?thesis by simp
    next
      case (Cons r0 rest)
      with all show ?thesis by (simp add: isCompatible_iff)
    qed
    then have "\<not> (\<exists>e. fst (Relation_union er rs) = Inl e)"
      and "\<not> (\<exists>e. fst (Relation_intersect er rs) = Inl e)"
      by (simp_all only: union_throws_iff intersect_throws_iff not_False_eq_True)
    then show ?thesis
      by (metis sum.exhaust)
  qed
  have c1: "isCompatible r s \<longleftrightarrow> set (getTables r) = set (getTables s)"
    by (rule isCompatible_iff)
  have c2: "(\<exists>e. fst (Relation_union er rs) = Inl e)
        \<longleftrightarrow> (\<exists>x\<in>set rs. set (getTables x) \<noteq> set (getTables (hd rs)))"
    unfolding union_throws_iff by (rule bad)
  have c3: "(\<exists>e. fst (Relation_intersect er rs) = Inl e)
        \<longleftrightarrow> (\<exists>x\<in>set rs. set (getTables x) \<noteq> set (getTables (hd rs)))"
    unfolding intersect_throws_iff by (rule bad)
  have c4: "\<forall>e. fst (Relation_union er rs) = Inl e \<longrightarrow> e = AssertionError"
    using union_throws_AssertionError by blast
  have c5: "\<forall>e. fst (Relation_intersect er rs) = Inl e \<longrightarrow> e = AssertionError"
    using intersect_throws_AssertionError by blast
  have c6: "(\<forall>x\<in>set rs. set (getTables x) = T)
        \<longrightarrow> (\<exists>res. fst (Relation_union er rs) = Inr res)
          \<and> (\<exists>res. fst (Relation_intersect er rs) = Inr res)"
    using same by (rule impI)
  show ?thesis
    by (intro conjI c1 c2 c3 c4 c5 c6)
qed

theorem compatibility_assertion_witness:
  "set (getTables (Relation_new [] [''Job''] :: unit relation)) = {''Job''}
   \<and> set (getTables (Relation_new [] [''Job'', ''Job''] :: unit relation)) = {''Job''}
   \<and> (\<exists>res. fst (Relation_union None
                 [Relation_new [] [''Job''], Relation_new [] [''Job'', ''Job'' :: string]])
               = Inr (res :: unit relation))
   \<and> fst (Relation_intersect None
            [Relation_new [] [''Job''], Relation_new [] [''Employee''] :: unit relation])
       = Inl AssertionError"
proof -
  let ?good = "[Relation_new [] [''Job''], Relation_new [] [''Job'', ''Job'']] :: unit relation list"
  let ?bad = "[Relation_new [] [''Job''], Relation_new [] [''Employee'']] :: unit relation list"
  have h: "\<forall>x\<in>set ?good. set (getTables x) = {''Job''}"
    by (simp add: getTables_Relation_new)
  have b: "\<exists>x\<in>set ?bad. set (getTables x) \<noteq> set (getTables (hd ?bad))"
    by (simp add: getTables_Relation_new)
  note good = compatibility_assertion [where rs = ?good and T = "{''Job''}" and er = None]
  note bad = compatibility_assertion [where rs = ?bad and er = None]
  have g: "\<exists>res. fst (Relation_union None ?good) = Inr res"
    using good [THEN conjunct2, THEN conjunct2, THEN conjunct2, THEN conjunct2, THEN conjunct2,
      THEN mp, OF h, THEN conjunct1] .
  obtain e where e: "fst (Relation_intersect None ?bad) = Inl e"
    using bad [THEN conjunct2, THEN conjunct2, THEN conjunct1, THEN iffD2, OF b] ..
  have "e = AssertionError"
    using bad [THEN conjunct2, THEN conjunct2, THEN conjunct2, THEN conjunct2, THEN conjunct1,
      THEN spec, THEN mp, OF e] .
  with e have i: "fst (Relation_intersect None ?bad) = Inl AssertionError" by simp
  have h': "set (getTables (Relation_new [] [''Job''] :: unit relation)) = {''Job''}"
    "set (getTables (Relation_new [] [''Job'', ''Job''] :: unit relation)) = {''Job''}"
    by (simp_all add: getTables_Relation_new)
  show ?thesis by (intro conjI h' g i)
qed

section \<open>Contents of an intersection and of a union\<close>

lemma pairwise_compatible_hd:
  "rs \<noteq> [] \<Longrightarrow> pairwise_compatible rs \<Longrightarrow> \<forall>r\<in>set rs. isCompatible (hd rs) r"
  by (cases rs) (auto simp: pairwise_compatible_def list_all_iff)

lemma same_entries_Int:
  assumes inj: "inj_on entry_id (\<Union>r\<in>set rs. set (entries r))"
    and ne: "rs \<noteq> []"
    and sub: "set (entries res) \<subseteq> (\<Union>r\<in>set rs. set (entries r))"
    and ids: "entryIds res = (\<Inter>r\<in>set rs. entryIds r)"
  shows "set (entries res) = (\<Inter>r\<in>set rs. set (entries r))"
proof (intro equalityI subsetI)
  fix e assume e: "e \<in> set (entries res)"
  show "e \<in> (\<Inter>r\<in>set rs. set (entries r))"
  proof
    fix r assume r: "r \<in> set rs"
    from e ids have "entry_id e \<in> entryIds r" using r by (auto simp: entryIds_def)
    then obtain e' where e': "e' \<in> set (entries r)" "entry_id e' = entry_id e"
      by (auto simp: entryIds_def)
    from e sub have "e \<in> (\<Union>r\<in>set rs. set (entries r))" by blast
    moreover from e'(1) r have "e' \<in> (\<Union>r\<in>set rs. set (entries r))" by blast
    ultimately have "e' = e" using inj_onD [OF inj e'(2)] by blast
    with e'(1) show "e \<in> set (entries r)" by simp
  qed
next
  fix e assume e: "e \<in> (\<Inter>r\<in>set rs. set (entries r))"
  then have "entry_id e \<in> (\<Inter>r\<in>set rs. entryIds r)" by (auto simp: entryIds_def)
  with ids have "entry_id e \<in> entry_id ` set (entries res)" by (simp add: entryIds_def)
  then obtain e' where e': "e' \<in> set (entries res)" "entry_id e' = entry_id e"
    by (auto simp: image_iff)
  from ne obtain r where "r \<in> set rs" by (cases rs) auto
  with e have "e \<in> (\<Union>r\<in>set rs. set (entries r))" by blast
  moreover from e'(1) sub have "e' \<in> (\<Union>r\<in>set rs. set (entries r))" by blast
  ultimately have "e' = e" using inj_onD [OF inj e'(2)] by blast
  with e'(1) show "e \<in> set (entries res)" by simp
qed

lemma same_entries_Un:
  assumes inj: "inj_on entry_id (\<Union>r\<in>set rs. set (entries r))"
    and sub: "set (entries res) \<subseteq> (\<Union>r\<in>set rs. set (entries r))"
    and ids: "entryIds res = (\<Union>r\<in>set rs. entryIds r)"
  shows "set (entries res) = (\<Union>r\<in>set rs. set (entries r))"
proof (intro equalityI subsetI)
  fix e assume "e \<in> set (entries res)"
  with sub show "e \<in> (\<Union>r\<in>set rs. set (entries r))" by blast
next
  fix e assume e: "e \<in> (\<Union>r\<in>set rs. set (entries r))"
  then have "entry_id e \<in> (\<Union>r\<in>set rs. entryIds r)" by (auto simp: entryIds_def)
  with ids have "entry_id e \<in> entry_id ` set (entries res)" by (simp add: entryIds_def)
  then obtain e' where e': "e' \<in> set (entries res)" "entry_id e' = entry_id e"
    by (auto simp: image_iff)
  from e'(1) sub have "e' \<in> (\<Union>r\<in>set rs. set (entries r))" by blast
  with e have "e' = e" using inj_onD [OF inj e'(2)] by blast
  with e'(1) show "e \<in> set (entries res)" by simp
qed

text \<open>
  C1. On a non-empty list of pairwise compatible relations, \<^verbatim>\<open>intersect\<close> and \<^verbatim>\<open>union\<close>
  return a relation and leave the empty-relation static as it is. The entry ids of the
  intersection are the ids present in every input; the entry ids of the union are the
  ids of all inputs; each result holds one entry per id, and every entry it holds is an
  entry of an input. When an id names one entry throughout the inputs (as it does for
  entries built by the constructor), the intersection holds exactly the entries that
  are in every input and the union exactly the entries of all inputs. The table set of
  both results is the table set of the first input.
\<close>

theorem intersect_union_contents:
  assumes "rs \<noteq> []" and "pairwise_compatible rs"
  shows "\<exists>ri ru.
       Relation_intersect er rs = (Inr ri, er) \<and> Relation_union er rs = (Inr ru, er)
     \<and> entryIds ri = (\<Inter>r\<in>set rs. entryIds r)
     \<and> entryIds ru = (\<Union>r\<in>set rs. entryIds r)
     \<and> distinct (map entry_id (entries ri)) \<and> distinct (map entry_id (entries ru))
     \<and> set (entries ri) \<subseteq> (\<Union>r\<in>set rs. set (entries r))
     \<and> set (entries ru) \<subseteq> (\<Union>r\<in>set rs. set (entries r))
     \<and> (inj_on entry_id (\<Union>r\<in>set rs. set (entries r)) \<longrightarrow>
          set (entries ri) = (\<Inter>r\<in>set rs. set (entries r))
          \<and> set (entries ru) = (\<Union>r\<in>set rs. set (entries r)))
     \<and> tables' ri = tables' (hd rs) \<and> tables' ru = tables' (hd rs)
     \<and> set (getTables ri) = set (getTables (hd rs))
     \<and> set (getTables ru) = set (getTables (hd rs))"
proof -
  have compat: "\<forall>r\<in>set rs. isCompatible (hd rs) r"
    using assms by (rule pairwise_compatible_hd)
  from intersect_result [OF assms(1) compat, of er] obtain ri where
    ri: "Relation_intersect er rs = (Inr ri, er)" "tables' ri = tables' (hd rs)"
      "distinct (map entry_id (entries ri))"
      "set (entries ri) \<subseteq> (\<Union>r\<in>set rs. set (entries r))"
      "entryIds ri = (\<Inter>r\<in>set rs. entryIds r)"
    by blast
  from union_result [OF assms(1) compat, of er] obtain ru where
    ru: "Relation_union er rs = (Inr ru, er)" "tables' ru = tables' (hd rs)"
      "distinct (map entry_id (entries ru))"
      "set (entries ru) \<subseteq> (\<Union>r\<in>set rs. set (entries r))"
      "entryIds ru = (\<Union>r\<in>set rs. entryIds r)"
    by blast
  have inj: "inj_on entry_id (\<Union>r\<in>set rs. set (entries r)) \<longrightarrow>
          set (entries ri) = (\<Inter>r\<in>set rs. set (entries r))
          \<and> set (entries ru) = (\<Union>r\<in>set rs. set (entries r))"
    using same_entries_Int [OF _ assms(1) ri(4) ri(5)] same_entries_Un [OF _ ru(4) ru(5)]
    by (intro impI conjI)
  have t: "set (getTables ri) = set (getTables (hd rs))"
    "set (getTables ru) = set (getTables (hd rs))"
    by (simp_all add: getTables_def ri(2) ru(2))
  show ?thesis
    by (intro exI [of _ ri] exI [of _ ru] conjI ri ru inj t)
qed

theorem intersect_union_contents_witness:
  "[Relation_new
      [\<lparr>row = \<lparr>Row_id = 10, payload = []\<rparr>, entry_id = 0, isPrefixApplied' = False\<rparr>,
       \<lparr>row = \<lparr>Row_id = 11, payload = []\<rparr>, entry_id = 1, isPrefixApplied' = False\<rparr>] [''Job''],
    Relation_new
      [\<lparr>row = \<lparr>Row_id = 11, payload = []\<rparr>, entry_id = 1, isPrefixApplied' = False\<rparr>,
       \<lparr>row = \<lparr>Row_id = 12, payload = []\<rparr>, entry_id = 2, isPrefixApplied' = False\<rparr>] [''Job'']]
     \<noteq> ([] :: unit relation list)
   \<and> pairwise_compatible
       ([Relation_new
          [\<lparr>row = \<lparr>Row_id = 10, payload = []\<rparr>, entry_id = 0, isPrefixApplied' = False\<rparr>,
           \<lparr>row = \<lparr>Row_id = 11, payload = []\<rparr>, entry_id = 1, isPrefixApplied' = False\<rparr>] [''Job''],
        Relation_new
          [\<lparr>row = \<lparr>Row_id = 11, payload = []\<rparr>, entry_id = 1, isPrefixApplied' = False\<rparr>,
           \<lparr>row = \<lparr>Row_id = 12, payload = []\<rparr>, entry_id = 2, isPrefixApplied' = False\<rparr>] [''Job'']]
        :: unit relation list)
   \<and> (\<exists>ri ru.
        fst (Relation_intersect None
          [Relation_new
            [\<lparr>row = \<lparr>Row_id = 10, payload = []\<rparr>, entry_id = 0, isPrefixApplied' = False\<rparr>,
             \<lparr>row = \<lparr>Row_id = 11, payload = []\<rparr>, entry_id = 1, isPrefixApplied' = False\<rparr>] [''Job''],
           Relation_new
            [\<lparr>row = \<lparr>Row_id = 11, payload = []\<rparr>, entry_id = 1, isPrefixApplied' = False\<rparr>,
             \<lparr>row = \<lparr>Row_id = 12, payload = []\<rparr>, entry_id = 2, isPrefixApplied' = False\<rparr>] [''Job'']])
          = Inr (ri :: unit relation)
      \<and> fst (Relation_union None
          [Relation_new
            [\<lparr>row = \<lparr>Row_id = 10, payload = []\<rparr>, entry_id = 0, isPrefixApplied' = False\<rparr>,
             \<lparr>row = \<lparr>Row_id = 11, payload = []\<rparr>, entry_id = 1, isPrefixApplied' = False\<rparr>] [''Job''],
           Relation_new
            [\<lparr>row = \<lparr>Row_id = 11, payload = []\<rparr>, entry_id = 1, isPrefixApplied' = False\<rparr>,
             \<lparr>row = \<lparr>Row_id = 12, payload = []\<rparr>, entry_id = 2, isPrefixApplied' = False\<rparr>] [''Job'']])
          = Inr (ru :: unit relation)
      \<and> entryIds ri = {1} \<and> entryIds ru = {0, 1, 2}
      \<and> set (entries ri) =
          {\<lparr>row = \<lparr>Row_id = 11, payload = []\<rparr>, entry_id = 1, isPrefixApplied' = False\<rparr>})"
proof -
  let ?e0 = "\<lparr>row = \<lparr>Row_id = 10, payload = []\<rparr>, entry_id = 0, isPrefixApplied' = False\<rparr>
    :: unit relationEntry"
  let ?e1 = "\<lparr>row = \<lparr>Row_id = 11, payload = []\<rparr>, entry_id = 1, isPrefixApplied' = False\<rparr>
    :: unit relationEntry"
  let ?e2 = "\<lparr>row = \<lparr>Row_id = 12, payload = []\<rparr>, entry_id = 2, isPrefixApplied' = False\<rparr>
    :: unit relationEntry"
  let ?rs = "[Relation_new [?e0, ?e1] [''Job''], Relation_new [?e1, ?e2] [''Job'']]"
  have ne: "?rs \<noteq> []" by simp
  have pc: "pairwise_compatible ?rs"
    by (simp add: pairwise_compatible_def isCompatible_Relation_new)
  have inj: "inj_on entry_id (\<Union>r\<in>set ?rs. set (entries r))"
    by (auto simp: entries_Relation_new inj_on_def)
  from intersect_union_contents [OF ne pc, of None] obtain ri ru where
    r: "Relation_intersect None ?rs = (Inr ri, None)" "Relation_union None ?rs = (Inr ru, None)"
      "entryIds ri = (\<Inter>r\<in>set ?rs. entryIds r)" "entryIds ru = (\<Union>r\<in>set ?rs. entryIds r)"
      "inj_on entry_id (\<Union>r\<in>set ?rs. set (entries r)) \<longrightarrow>
          set (entries ri) = (\<Inter>r\<in>set ?rs. set (entries r))
          \<and> set (entries ru) = (\<Union>r\<in>set ?rs. set (entries r))"
    by (elim exE conjE) (rule that; assumption)
  from r(5) inj have s: "set (entries ri) = (\<Inter>r\<in>set ?rs. set (entries r))" by blast
  have a: "fst (Relation_intersect None ?rs) = Inr ri" using r(1) by simp
  have b: "fst (Relation_union None ?rs) = Inr ru" using r(2) by simp
  have c: "entryIds ri = {1}" unfolding r(3) by (simp add: entryIds_def entries_Relation_new)
  have d: "entryIds ru = {0, 1, 2}" unfolding r(4)
    by (auto simp: entryIds_def entries_Relation_new)
  have e: "set (entries ri) = {?e1}" unfolding s by (auto simp: entries_Relation_new)
  show ?thesis
    by (intro conjI exI [of _ ri] exI [of _ ru] ne pc a b c d e)
qed

section \<open>The set laws\<close>

lemma union_ids:
  assumes "pairwise_compatible rs" and "rs \<noteq> []"
  obtains x where "fst (Relation_union er rs) = Inr x"
    and "entryIds x = (\<Union>r\<in>set rs. entryIds r)" and "tables' x = tables' (hd rs)"
proof -
  from union_result [OF assms(2) pairwise_compatible_hd [OF assms(2) assms(1)], of er]
  obtain res where "Relation_union er rs = (Inr res, er)" "tables' res = tables' (hd rs)"
    "entryIds res = (\<Union>r\<in>set rs. entryIds r)"
    by (elim exE conjE)
  then show ?thesis using that [of res] by simp
qed

lemma intersect_ids:
  assumes "pairwise_compatible rs" and "rs \<noteq> []"
  obtains x where "fst (Relation_intersect er rs) = Inr x"
    and "entryIds x = (\<Inter>r\<in>set rs. entryIds r)" and "tables' x = tables' (hd rs)"
proof -
  from intersect_result [OF assms(2) pairwise_compatible_hd [OF assms(2) assms(1)], of er]
  obtain res where "Relation_intersect er rs = (Inr res, er)" "tables' res = tables' (hd rs)"
    "entryIds res = (\<Inter>r\<in>set rs. entryIds r)"
    by (elim exE conjE)
  then show ?thesis using that [of res] by simp
qed

lemma pairwise_compatible_tables:
  "pairwise_compatible rs \<Longrightarrow> map tables' ss = map tables' rs' \<Longrightarrow> set rs' \<subseteq> set rs \<Longrightarrow>
     pairwise_compatible ss"
proof -
  assume pc: "pairwise_compatible rs" and m: "map tables' ss = map tables' rs'"
    and sub: "set rs' \<subseteq> set rs"
  have "isCompatible x y" if "x \<in> set ss" "y \<in> set ss" for x y
  proof -
    from that m have "tables' x \<in> tables' ` set rs'" "tables' y \<in> tables' ` set rs'"
      by (metis image_eqI list.set_map)+
    then obtain x' y' where "x' \<in> set rs'" "tables' x = tables' x'" "y' \<in> set rs'"
      "tables' y = tables' y'" by auto
    moreover have "isCompatible x' y'"
      using pc sub calculation(1,3) by (auto simp: pairwise_compatible_def list_all_iff)
    ultimately show ?thesis by (simp add: isCompatible_def)
  qed
  then show ?thesis by (simp add: pairwise_compatible_def list_all_iff)
qed

text \<open>
  C2. \<^verbatim>\<open>union([])\<close> and \<^verbatim>\<open>intersect([])\<close> return the empty-relation singleton: the first
  call creates it, with no entry and no table, and stores it in the static; once it is
  stored, both return the stored relation and leave the static as it is. For pairwise
  compatible relations \<open>a\<close>, \<open>b\<close>, \<open>c\<close>, compared by their sets of entry ids: union and
  intersect of \<open>[a, b]\<close> and of \<open>[b, a]\<close> agree; nesting to the left and nesting to the
  right agree; and the union or intersection of \<open>a\<close> with itself has the ids of \<open>a\<close>.
\<close>

theorem relation_set_laws:
  assumes "pairwise_compatible [a, b, c]"
  shows
    "Relation_union None [] = (Inr (Relation_new [] []), Some (Relation_new [] [] :: 'v relation))
     \<and> Relation_intersect None [] = (Inr (Relation_new [] []), Some (Relation_new [] [] :: 'v relation))
     \<and> Relation_union (Some E) [] = (Inr E, Some (E :: 'v relation))
     \<and> Relation_intersect (Some E) [] = (Inr E, Some E)
     \<and> entries (Relation_new [] [] :: 'v relation) = []
     \<and> getTables (Relation_new [] [] :: 'v relation) = []
     \<and> (\<exists>ab ba. fst (Relation_union er [a, b]) = Inr ab
            \<and> fst (Relation_union er [b, a]) = Inr ba
            \<and> entryIds ab = entryIds ba)
     \<and> (\<exists>ab bc l r. fst (Relation_union er [a, b]) = Inr ab
            \<and> fst (Relation_union er [b, c]) = Inr bc
            \<and> fst (Relation_union er [ab, c]) = Inr l
            \<and> fst (Relation_union er [a, bc]) = Inr r
            \<and> entryIds l = entryIds r)
     \<and> (\<exists>aa. fst (Relation_union er [a, a]) = Inr aa \<and> entryIds aa = entryIds a)
     \<and> (\<exists>ab ba. fst (Relation_intersect er [a, b]) = Inr ab
            \<and> fst (Relation_intersect er [b, a]) = Inr ba
            \<and> entryIds ab = entryIds ba)
     \<and> (\<exists>ab bc l r. fst (Relation_intersect er [a, b]) = Inr ab
            \<and> fst (Relation_intersect er [b, c]) = Inr bc
            \<and> fst (Relation_intersect er [ab, c]) = Inr l
            \<and> fst (Relation_intersect er [a, bc]) = Inr r
            \<and> entryIds l = entryIds r)
     \<and> (\<exists>aa. fst (Relation_intersect er [a, a]) = Inr aa \<and> entryIds aa = entryIds (a :: 'v relation))"
proof -
  note pc = pairwise_compatible_tables [OF assms]
  have empty:
    "Relation_union None [] = (Inr (Relation_new [] []), Some (Relation_new [] [] :: 'v relation))"
    "Relation_intersect None [] = (Inr (Relation_new [] []), Some (Relation_new [] [] :: 'v relation))"
    "Relation_union (Some E) [] = (Inr E, Some E)"
    "Relation_intersect (Some E) [] = (Inr E, Some E)"
    by (simp_all add: Relation_union_def Relation_intersect_def createEmpty_def Let_def)
  have none: "entries (Relation_new [] [] :: 'v relation) = []"
    "getTables (Relation_new [] [] :: 'v relation) = []"
    by (simp_all add: Relation_new_def getTables_def gsSet_new_def gsSet_empty.rep_eq)
  have pab: "pairwise_compatible [a, b]" and pba: "pairwise_compatible [b, a]"
    and pbc: "pairwise_compatible [b, c]" and paa: "pairwise_compatible [a, a]"
    by (rule pc [of _ "[a, b]"] pc [of _ "[b, a]"] pc [of _ "[b, c]"] pc [of _ "[a, a]"]; simp)+
  \<comment> \<open>union\<close>
  obtain uab where uab: "fst (Relation_union er [a, b]) = Inr uab"
    "entryIds uab = entryIds a \<union> entryIds b" "tables' uab = tables' a"
    using union_ids [OF pab, of er] by auto
  obtain uba where uba: "fst (Relation_union er [b, a]) = Inr uba"
    "entryIds uba = entryIds b \<union> entryIds a"
    using union_ids [OF pba, of er] by auto
  obtain ubc where ubc: "fst (Relation_union er [b, c]) = Inr ubc"
    "entryIds ubc = entryIds b \<union> entryIds c" "tables' ubc = tables' b"
    using union_ids [OF pbc, of er] by auto
  have "pairwise_compatible [uab, c]" by (rule pc [of _ "[a, c]"]) (simp_all add: uab)
  then obtain ul where ul: "fst (Relation_union er [uab, c]) = Inr ul"
    "entryIds ul = entryIds uab \<union> entryIds c"
    using union_ids [of "[uab, c]" er] by auto
  have "pairwise_compatible [a, ubc]" by (rule pc [of _ "[a, b]"]) (simp_all add: ubc)
  then obtain ur where ur: "fst (Relation_union er [a, ubc]) = Inr ur"
    "entryIds ur = entryIds a \<union> entryIds ubc"
    using union_ids [of "[a, ubc]" er] by auto
  obtain uaa where uaa: "fst (Relation_union er [a, a]) = Inr uaa"
    "entryIds uaa = entryIds a \<union> entryIds a"
    using union_ids [OF paa, of er] by auto
  have u1: "\<exists>ab ba. fst (Relation_union er [a, b]) = Inr ab
            \<and> fst (Relation_union er [b, a]) = Inr ba \<and> entryIds ab = entryIds ba"
    using uab(1) uba(1) by (intro exI [of _ uab] exI [of _ uba] conjI) (auto simp: uab uba)
  have u2: "\<exists>ab bc l r. fst (Relation_union er [a, b]) = Inr ab
            \<and> fst (Relation_union er [b, c]) = Inr bc
            \<and> fst (Relation_union er [ab, c]) = Inr l
            \<and> fst (Relation_union er [a, bc]) = Inr r
            \<and> entryIds l = entryIds r"
    using uab(1) ubc(1) ul(1) ur(1)
    by (intro exI [of _ uab] exI [of _ ubc] exI [of _ ul] exI [of _ ur] conjI)
      (auto simp: uab ubc ul ur)
  have u3: "\<exists>aa. fst (Relation_union er [a, a]) = Inr aa \<and> entryIds aa = entryIds a"
    using uaa by (intro exI [of _ uaa] conjI) auto
  \<comment> \<open>intersect\<close>
  obtain iab where iab: "fst (Relation_intersect er [a, b]) = Inr iab"
    "entryIds iab = entryIds a \<inter> entryIds b" "tables' iab = tables' a"
    using intersect_ids [OF pab, of er] by auto
  obtain iba where iba: "fst (Relation_intersect er [b, a]) = Inr iba"
    "entryIds iba = entryIds b \<inter> entryIds a"
    using intersect_ids [OF pba, of er] by auto
  obtain ibc where ibc: "fst (Relation_intersect er [b, c]) = Inr ibc"
    "entryIds ibc = entryIds b \<inter> entryIds c" "tables' ibc = tables' b"
    using intersect_ids [OF pbc, of er] by auto
  have "pairwise_compatible [iab, c]" by (rule pc [of _ "[a, c]"]) (simp_all add: iab)
  then obtain il where il: "fst (Relation_intersect er [iab, c]) = Inr il"
    "entryIds il = entryIds iab \<inter> entryIds c"
    using intersect_ids [of "[iab, c]" er] by auto
  have "pairwise_compatible [a, ibc]" by (rule pc [of _ "[a, b]"]) (simp_all add: ibc)
  then obtain ir where ir: "fst (Relation_intersect er [a, ibc]) = Inr ir"
    "entryIds ir = entryIds a \<inter> entryIds ibc"
    using intersect_ids [of "[a, ibc]" er] by auto
  obtain iaa where iaa: "fst (Relation_intersect er [a, a]) = Inr iaa"
    "entryIds iaa = entryIds a \<inter> entryIds a"
    using intersect_ids [OF paa, of er] by auto
  have i1: "\<exists>ab ba. fst (Relation_intersect er [a, b]) = Inr ab
            \<and> fst (Relation_intersect er [b, a]) = Inr ba \<and> entryIds ab = entryIds ba"
    using iab(1) iba(1) by (intro exI [of _ iab] exI [of _ iba] conjI) (auto simp: iab iba)
  have i2: "\<exists>ab bc l r. fst (Relation_intersect er [a, b]) = Inr ab
            \<and> fst (Relation_intersect er [b, c]) = Inr bc
            \<and> fst (Relation_intersect er [ab, c]) = Inr l
            \<and> fst (Relation_intersect er [a, bc]) = Inr r
            \<and> entryIds l = entryIds r"
    using iab(1) ibc(1) il(1) ir(1)
    by (intro exI [of _ iab] exI [of _ ibc] exI [of _ il] exI [of _ ir] conjI)
      (auto simp: iab ibc il ir)
  have i3: "\<exists>aa. fst (Relation_intersect er [a, a]) = Inr aa \<and> entryIds aa = entryIds a"
    using iaa by (intro exI [of _ iaa] conjI) auto
  show ?thesis
    by (intro conjI empty none u1 u2 u3 i1 i2 i3)
qed

theorem relation_set_laws_witness:
  "pairwise_compatible
     ([Relation_new
         [\<lparr>row = \<lparr>Row_id = 10, payload = []\<rparr>, entry_id = 0, isPrefixApplied' = False\<rparr>]
         [''Job''],
       Relation_new
         [\<lparr>row = \<lparr>Row_id = 11, payload = []\<rparr>, entry_id = 1, isPrefixApplied' = False\<rparr>]
         [''Job''],
       Relation_new [] [''Job'']] :: unit relation list)
   \<and> (\<exists>ab ba.
         fst (Relation_union None
           [Relation_new
              [\<lparr>row = \<lparr>Row_id = 10, payload = []\<rparr>, entry_id = 0, isPrefixApplied' = False\<rparr>]
              [''Job''],
            Relation_new
              [\<lparr>row = \<lparr>Row_id = 11, payload = []\<rparr>, entry_id = 1, isPrefixApplied' = False\<rparr>]
              [''Job'']]) = Inr (ab :: unit relation)
       \<and> fst (Relation_union None
           [Relation_new
              [\<lparr>row = \<lparr>Row_id = 11, payload = []\<rparr>, entry_id = 1, isPrefixApplied' = False\<rparr>]
              [''Job''],
            Relation_new
              [\<lparr>row = \<lparr>Row_id = 10, payload = []\<rparr>, entry_id = 0, isPrefixApplied' = False\<rparr>]
              [''Job'']]) = Inr (ba :: unit relation)
       \<and> entryIds ab = entryIds ba)"
proof -
  let ?a = "Relation_new
    [\<lparr>row = \<lparr>Row_id = 10, payload = []\<rparr>, entry_id = 0, isPrefixApplied' = False\<rparr>] [''Job'']
    :: unit relation"
  let ?b = "Relation_new
    [\<lparr>row = \<lparr>Row_id = 11, payload = []\<rparr>, entry_id = 1, isPrefixApplied' = False\<rparr>] [''Job'']
    :: unit relation"
  let ?c = "Relation_new [] [''Job''] :: unit relation"
  have pc: "pairwise_compatible [?a, ?b, ?c]"
    by (simp add: pairwise_compatible_def isCompatible_Relation_new)
  note laws = relation_set_laws [OF pc, where er = None]
  note comm = laws [THEN conjunct2, THEN conjunct2, THEN conjunct2, THEN conjunct2,
      THEN conjunct2, THEN conjunct2, THEN conjunct1]
  from pc comm show ?thesis by (rule conjI)
qed

section \<open>Relations from rows\<close>

lemma upt_0_Suc_map: "map f [0..<Suc k] = f 0 # map (\<lambda>i. f (Suc i)) [0..<k]"
  by (simp only: upt_conv_Cons [of 0 "Suc k"] zero_less_Suc if_True list.map map_Suc_upt [symmetric] map_map o_def)

lemma fromRows_map_spec:
  "map row (fst (fromRows_map n rows p)) = rows
   \<and> map isPrefixApplied' (fst (fromRows_map n rows p)) = replicate (length rows) p
   \<and> map entry_id (fst (fromRows_map n rows p))
       = map (\<lambda>i. (js_increment ^^ i) n) [0..<length rows]
   \<and> snd (fromRows_map n rows p) = (js_increment ^^ length rows) n"
proof (induction rows arbitrary: n)
  case Nil
  show ?case by simp
next
  case (Cons r rows)
  note IH = Cons.IH [of "js_increment n"]
  show ?case
    using IH
    by (simp add: RelationEntry_new_def getNextId'_def split_beta upt_0_Suc_map funpow_swap1
        del: upt_Suc)
qed

text \<open>
  C5. \<^verbatim>\<open>fromRows\<close> returns a relation with one entry per row, in the order of the rows;
  every entry has the flag \<^verbatim>\<open>isPrefixApplied_\<close> set exactly when the list of table names
  has more than one element; the relation's tables are those of the list. The entries
  are new: their ids are the ones the counter hands out, one after the other.
\<close>

theorem fromRows_wraps_rows:
  "map row (entries (fst (fromRows counter rows tables))) = rows
   \<and> length (entries (fst (fromRows counter rows tables))) = length rows
   \<and> map isPrefixApplied' (entries (fst (fromRows counter rows tables)))
       = replicate (length rows) (length tables > 1)
   \<and> set (getTables (fst (fromRows counter rows tables))) = set tables
   \<and> map entry_id (entries (fst (fromRows counter rows tables)))
       = map (\<lambda>i. (js_increment ^^ i) counter) [0..<length rows]
   \<and> snd (fromRows counter rows tables) = (js_increment ^^ length rows) counter"
proof -
  have e: "entries (fst (fromRows counter rows tables))
      = fst (fromRows_map counter rows (length tables > 1))"
    and t: "set (getTables (fst (fromRows counter rows tables))) = set tables"
    and s: "snd (fromRows counter rows tables)
      = snd (fromRows_map counter rows (length tables > 1))"
    by (simp_all add: fromRows_def Let_def split_beta entries_Relation_new getTables_Relation_new)
  note m = fromRows_map_spec [of counter rows "length tables > 1"]
  have l: "length (entries (fst (fromRows counter rows tables))) = length rows"
    using m [THEN conjunct1] unfolding e by (metis length_map)
  show ?thesis
    unfolding e s
    using m l [unfolded e] t by (intro conjI) (simp_all only:)
qed

theorem fromRows_wraps_rows_witness:
  "map row (entries (fst (fromRows 5
      [\<lparr>Row_id = 1, payload = []\<rparr>, \<lparr>Row_id = 2, payload = []\<rparr> :: unit Row]
      [''Job'', ''Employee''])))
     = [\<lparr>Row_id = 1, payload = []\<rparr>, \<lparr>Row_id = 2, payload = []\<rparr>]
   \<and> map isPrefixApplied' (entries (fst (fromRows 5
      [\<lparr>Row_id = 1, payload = []\<rparr>, \<lparr>Row_id = 2, payload = []\<rparr> :: unit Row]
      [''Job'', ''Employee''])))
     = [True, True]"
  using fromRows_wraps_rows [of 5
      "[\<lparr>Row_id = 1, payload = []\<rparr>, \<lparr>Row_id = 2, payload = []\<rparr> :: unit Row]"
      "[''Job'', ''Employee'']"]
  by (simp add: numeral_2_eq_2)

section \<open>Entry ids\<close>

lemma construct1_ids:
  "map entry_id (fst (construct1 n c)) = map (\<lambda>i. (js_increment ^^ i) n) [0..<built c]
   \<and> snd (construct1 n c) = (js_increment ^^ built c) n"
proof (cases c)
  case (New r p)
  then show ?thesis by (simp add: RelationEntry_new_def getNextId'_def)
next
  case (FromRows rows tables)
  then show ?thesis
    using fromRows_map_spec [of n rows "length tables > 1"]
    by (simp add: fromRows_def Let_def split_beta entries_Relation_new)
next
  case (Combine d l lt r rt)
  then show ?thesis
    by (simp add: combineEntries_def Let_def RelationEntry_new_def getNextId'_def)
qed

lemma upt_add_map:
  "map f [0..<a + b] = map f [0..<a] @ map (\<lambda>i. f (a + i)) [0..<b]"
proof -
  have 1: "[0..<a + b] = [0..<a] @ [a..<a + b]"
    by (rule upt_add_eq_append) simp
  have 2: "[a..<a + b] = map (\<lambda>i. a + i) [0..<b]"
    by (induction b) simp_all
  show ?thesis
    unfolding 1 2 by (simp add: o_def)
qed

lemma construct_ids:
  "map entry_id (fst (construct n cs))
     = map (\<lambda>i. (js_increment ^^ i) n) [0..<sum_list (map built cs)]
   \<and> snd (construct n cs) = (js_increment ^^ sum_list (map built cs)) n"
proof (induction cs arbitrary: n)
  case Nil
  show ?case by simp
next
  case (Cons c cs)
  let ?b = "built c" and ?t = "sum_list (map built cs)"
  note one = construct1_ids [of n c]
  note IH = Cons.IH [of "(js_increment ^^ ?b) n"]
  have f: "(js_increment ^^ (?b + i)) n = (js_increment ^^ i) ((js_increment ^^ ?b) n)" for i
    by (simp only: add.commute [of ?b i] funpow_add o_apply)
  have "map entry_id (fst (construct n (c # cs)))
      = map entry_id (fst (construct1 n c))
        @ map entry_id (fst (construct (snd (construct1 n c)) cs))"
    by (simp add: split_beta)
  also have "\<dots> = map (\<lambda>i. (js_increment ^^ i) n) [0..<?b]
        @ map (\<lambda>i. (js_increment ^^ i) ((js_increment ^^ ?b) n)) [0..<?t]"
    by (simp only: one IH)
  also have "\<dots> = map (\<lambda>i. (js_increment ^^ i) n) [0..<?b + ?t]"
    by (simp only: upt_add_map [of _ ?b ?t] f)
  finally have ids: "map entry_id (fst (construct n (c # cs)))
      = map (\<lambda>i. (js_increment ^^ i) n) [0..<sum_list (map built (c # cs))]"
    by simp
  have "snd (construct n (c # cs)) = snd (construct (snd (construct1 n c)) cs)"
    by (simp add: split_beta)
  also have "\<dots> = (js_increment ^^ ?t) ((js_increment ^^ ?b) n)"
    by (simp only: one IH)
  also have "\<dots> = (js_increment ^^ (?b + ?t)) n"
    by (simp only: f)
  finally have "snd (construct n (c # cs)) = (js_increment ^^ sum_list (map built (c # cs))) n"
    by simp
  with ids show ?case by (rule conjI)
qed

lemma js_increment_exact: "n + i \<le> 2 ^ 53 \<Longrightarrow> (js_increment ^^ i) n = n + i"
  by (induction i) (simp_all add: js_increment_def)

lemma js_increment_stuck: "(js_increment ^^ i) (2 ^ 53) = 2 ^ 53"
  by (induction i) (simp_all add: js_increment_def)

lemma ids_exact:
  assumes "n + k \<le> 2 ^ 53 + 1"
  shows "map (\<lambda>i. (js_increment ^^ i) n) [0..<k] = [n..<n + k]"
proof -
  have b: "n + i \<le> 2 ^ 53" if "i < k" for i
  proof -
    from that have "n + i < n + k" by simp
    also note assms
    finally show ?thesis by (simp only: less_Suc_eq_le Suc_eq_plus1 [symmetric])
  qed
  have "map (\<lambda>i. (js_increment ^^ i) n) [0..<k] = map (\<lambda>i. i + n) [0..<k]"
    by (rule map_cong [OF refl]) (simp add: js_increment_exact [OF b] add.commute)
  then show ?thesis by (simp only: map_add_upt add.commute [of k n])
qed
lemma length_construct: "length (fst (construct n cs)) = sum_list (map built cs)"
  using construct_ids [of n cs, THEN conjunct1, THEN arg_cong, of length]
  by (simp only: length_map length_upt diff_zero)

text \<open>
  C7, as amended. A sequence of constructions (by the constructor, by \<^verbatim>\<open>fromRows\<close>, by
  \<^verbatim>\<open>combineEntries\<close>) that starts with the counter at \<open>counter\<close> and builds \<open>k\<close> entries
  with \<open>counter + k \<le> 2 ^ 53 + 1\<close> gives them the ids \<open>counter\<close>, \<open>counter + 1\<close>, ... in the
  order of construction: every later entry has a strictly greater id than every
  earlier one, and the ids are distinct.
\<close>

theorem entry_ids_strictly_increasing:
  assumes "counter + sum_list (map built cs) \<le> 2 ^ 53 + 1"
  shows "length (fst (construct counter cs)) = sum_list (map built cs)
     \<and> map entry_id (fst (construct counter cs))
         = [counter ..< counter + sum_list (map built cs)]
     \<and> sorted_wrt (<) (map entry_id (fst (construct counter cs)))
     \<and> distinct (map entry_id (fst (construct counter cs)))"
proof -
  have ids: "map entry_id (fst (construct counter cs))
      = [counter ..< counter + sum_list (map built cs)]"
    using construct_ids [of counter cs, THEN conjunct1] ids_exact [OF assms]
    by (rule trans)
  have "sorted_wrt (<) (map entry_id (fst (construct counter cs)))"
    unfolding ids by (rule sorted_wrt_upt)
  moreover have "distinct (map entry_id (fst (construct counter cs)))"
    unfolding ids by (rule distinct_upt)
  ultimately show ?thesis
    using ids length_construct [of counter cs] by (intro conjI)
qed

theorem entry_ids_strictly_increasing_witness:
  "(0::nat) + sum_list (map built
       [New \<lparr>Row_id = 1, payload = []\<rparr> False,
        FromRows [\<lparr>Row_id = 2, payload = []\<rparr>, \<lparr>Row_id = 3, payload = []\<rparr>] [''Job''],
        Combine (- 1)
          \<lparr>row = \<lparr>Row_id = 2, payload = []\<rparr>, entry_id = 1, isPrefixApplied' = False\<rparr> [''Job'']
          \<lparr>row = \<lparr>Row_id = 3, payload = []\<rparr>, entry_id = 2, isPrefixApplied' = False\<rparr>
          [''Employee''] :: unit construction]) \<le> 2 ^ 53 + 1
   \<and> map entry_id (fst (construct 0
       [New \<lparr>Row_id = 1, payload = []\<rparr> False,
        FromRows [\<lparr>Row_id = 2, payload = []\<rparr>, \<lparr>Row_id = 3, payload = []\<rparr>] [''Job''],
        Combine (- 1)
          \<lparr>row = \<lparr>Row_id = 2, payload = []\<rparr>, entry_id = 1, isPrefixApplied' = False\<rparr> [''Job'']
          \<lparr>row = \<lparr>Row_id = 3, payload = []\<rparr>, entry_id = 2, isPrefixApplied' = False\<rparr>
          [''Employee''] :: unit construction]))
     = [0, 1, 2, 3]"
proof -
  let ?cs = "[New \<lparr>Row_id = 1, payload = []\<rparr> False,
        FromRows [\<lparr>Row_id = 2, payload = []\<rparr>, \<lparr>Row_id = 3, payload = []\<rparr>] [''Job''],
        Combine (- 1)
          \<lparr>row = \<lparr>Row_id = 2, payload = []\<rparr>, entry_id = 1, isPrefixApplied' = False\<rparr> [''Job'']
          \<lparr>row = \<lparr>Row_id = 3, payload = []\<rparr>, entry_id = 2, isPrefixApplied' = False\<rparr>
          [''Employee''] :: unit construction]"
  have t: "sum_list (map built ?cs) = 4" by simp
  have h: "(0::nat) + sum_list (map built ?cs) \<le> 2 ^ 53 + 1"
    unfolding t by simp
  have u: "[0 ..< 0 + (4::nat)] = [0, 1, 2, 3]" by (simp add: upt_rec)
  from entry_ids_strictly_increasing [OF h, THEN conjunct2, THEN conjunct1]
  have "map entry_id (fst (construct 0 ?cs)) = [0, 1, 2, 3]"
    unfolding t u .
  with h show ?thesis by (rule conjI)
qed

text \<open>
  C7 as stated fails once the counter has reached \<open>2 ^ 53\<close>: there two entries built one
  after the other get the same id. The counter gets there from 0 by \<open>2 ^ 53\<close>
  constructions, and the last two of \<open>2 ^ 53 + 2\<close> entries built from 0 share their id.
\<close>

theorem entry_ids_repeat_at_2_53:
  "map entry_id (fst (construct (2 ^ 53)
       [New \<lparr>Row_id = 1, payload = []\<rparr> False, New \<lparr>Row_id = 2, payload = []\<rparr> False
        :: unit construction]))
     = [2 ^ 53, 2 ^ 53]
   \<and> snd (construct 0
       (replicate (2 ^ 53) (New \<lparr>Row_id = 1, payload = []\<rparr> False :: unit construction)))
     = 2 ^ 53
   \<and> \<not> distinct (map entry_id (fst (construct 0
       (replicate (2 ^ 53 + 2) (New \<lparr>Row_id = 1, payload = []\<rparr> False :: unit construction)))))"
proof -
  let ?c = "New \<lparr>Row_id = 1, payload = []\<rparr> False :: unit construction"
  define K :: nat where "K = 2 ^ 53"
  have total: "sum_list (map built (replicate k ?c)) = k" for k
    by (induction k) simp_all
  have stuck: "(js_increment ^^ i) K = K" for i
    unfolding K_def by (rule js_increment_stuck)
  have reach: "(js_increment ^^ K) 0 = K"
    using js_increment_exact [of 0 K] by (simp add: K_def)
  have a: "map entry_id (fst (construct (2 ^ 53)
       [New \<lparr>Row_id = 1, payload = []\<rparr> False, New \<lparr>Row_id = 2, payload = []\<rparr> False
        :: unit construction])) = [2 ^ 53, 2 ^ 53]"
    by (simp add: RelationEntry_new_def getNextId'_def js_increment_def)
  have b: "snd (construct 0 (replicate K ?c)) = K"
    using construct_ids [of 0 "replicate K ?c", THEN conjunct2] reach
    by (simp only: total)
  let ?ids = "map (\<lambda>i. (js_increment ^^ i) 0) [0..<K + 2]"
  have ids: "map entry_id (fst (construct 0 (replicate (K + 2) ?c))) = ?ids"
    using construct_ids [of 0 "replicate (K + 2) ?c", THEN conjunct1]
    by (simp only: total)
  have split: "(js_increment ^^ (K + i)) 0 = K" for i
    by (simp only: add.commute [of K i] funpow_add o_apply reach stuck)
  have "?ids ! K = (js_increment ^^ (K + 0)) 0"
    by (subst nth_map_upt) simp_all
  moreover have "?ids ! (K + 1) = (js_increment ^^ (K + 1)) 0"
    by (subst nth_map_upt) simp_all
  ultimately have "?ids ! K = ?ids ! (K + 1)"
    by (simp only: split)
  moreover have "K < length ?ids" "K + 1 < length ?ids" "K \<noteq> K + 1" by simp_all
  ultimately have c: "\<not> distinct ?ids"
    by (metis nth_eq_iff_index_eq)
  have c': "\<not> distinct (map entry_id (fst (construct 0 (replicate (K + 2) ?c))))"
    unfolding ids by (rule c)
  show ?thesis
    using a b c' unfolding K_def by (intro conjI)
qed

section \<open>Combined entries\<close>

lemma obj_get_set: "obj_get (obj_set obj k v) k' = (if k' = k then v else obj_get obj k')"
  by (simp add: obj_get_def obj_set_def update_conv')







section \<open>Reading and writing fields\<close>

lemma js_get_set: "js_get (obj_set obj k v) k' = (if k' = k then v else js_get obj k')"
  by (simp add: js_get_def obj_set_def update_conv')

lemma js_get_no_slot:
  "map_of obj k = None \<Longrightarrow> k \<notin> set objectPrototypeNames \<Longrightarrow> js_get obj k = Undefined"
  by (simp add: js_get_def)

text \<open>
  C10, as amended. On a prefix-applied entry for which \<^verbatim>\<open>payload[table]\<close> reads \<^verbatim>\<open>undefined\<close>
  or \<^verbatim>\<open>null\<close> (the payload has no slot of its own for the column's table, or one that
  holds \<^verbatim>\<open>undefined\<close> or \<^verbatim>\<open>null\<close>, and inherits nothing under the table's name),
  \<^verbatim>\<open>setField\<close> on a column without alias, not named \<^verbatim>\<open>__proto__\<close>, puts a new container
  under the table's name, holding the value under the column's name, and leaves the
  other properties of the payload as they are; \<^verbatim>\<open>getField\<close> on the same column then
  returns the value, on every host. (The column \<^verbatim>\<open>__proto__\<close> is left out because an
  assignment under that name goes to a setter and creates no property.)
\<close>

theorem setField_creates_container:
  assumes "isPrefixApplied' e" and "getAlias col = None"
    and "\<not> isDefAndNotNull (js_get (payload (row e)) (getTableName col))"
    and "getName col \<noteq> ''__proto__''"
  shows "getField hostGet (setField e col v) col = Inr v
     \<and> obj_get (payload (row (setField e col v))) k
         = (if k = getTableName col then Obj [(getName col, v)]
            else obj_get (payload (row e)) k)
     \<and> js_get (payload (row (setField e col v))) k
         = (if k = getTableName col then Obj [(getName col, v)]
            else js_get (payload (row e)) k)
     \<and> isPrefixApplied' (setField e col v)
     \<and> entry_id (setField e col v) = entry_id e
     \<and> Row_id (row (setField e col v)) = Row_id (row e)"
proof -
  have s: "setField e col v =
      set_payload e (obj_set (payload (row e)) (getTableName col) (Obj [(getName col, v)]))"
    using assms(1-3) by (simp add: setField_def Let_def obj_set_def)
  have own: "js_get [(getName col, v)] (getName col) = v"
    by (simp add: js_get_def)
  have g: "getField hostGet (setField e col v) col = Inr v"
    unfolding s using assms(1)
    by (simp add: getField_def set_payload_def js_get_set own)
  show ?thesis
    using g assms(1) unfolding s
    by (simp add: set_payload_def obj_get_set js_get_set)
qed

theorem setField_creates_container_witness:
  "isPrefixApplied'
     \<lparr>row = \<lparr>Row_id = - 1, payload = [(''Employee'', Obj [(''id'', Prim (20::nat))])]\<rparr>,
      entry_id = 3, isPrefixApplied' = True\<rparr>
   \<and> getAlias \<lparr>getName = ''title'', getTableName = ''Job'', getAlias = None\<rparr> = None
   \<and> map_of (payload (row
       \<lparr>row = \<lparr>Row_id = - 1, payload = [(''Employee'', Obj [(''id'', Prim (20::nat))])]\<rparr>,
        entry_id = 3, isPrefixApplied' = True\<rparr>)) ''Job'' = None
   \<and> ''Job'' \<notin> set objectPrototypeNames
   \<and> \<not> isDefAndNotNull (js_get (payload (row
       \<lparr>row = \<lparr>Row_id = - 1, payload = [(''Employee'', Obj [(''id'', Prim (20::nat))])]\<rparr>,
        entry_id = 3, isPrefixApplied' = True\<rparr>)) ''Job'')
   \<and> ''title'' \<noteq> ''__proto__''
   \<and> getField (\<lambda>x c. Undefined)
       (setField
          \<lparr>row = \<lparr>Row_id = - 1, payload = [(''Employee'', Obj [(''id'', Prim (20::nat))])]\<rparr>,
           entry_id = 3, isPrefixApplied' = True\<rparr>
          \<lparr>getName = ''title'', getTableName = ''Job'', getAlias = None\<rparr> (Prim 5))
       \<lparr>getName = ''title'', getTableName = ''Job'', getAlias = None\<rparr>
     = Inr (Prim 5)"
proof -
  let ?e = "\<lparr>row = \<lparr>Row_id = - 1, payload = [(''Employee'', Obj [(''id'', Prim (20::nat))])]\<rparr>,
      entry_id = 3, isPrefixApplied' = True\<rparr>"
  let ?c = "\<lparr>getName = ''title'', getTableName = ''Job'', getAlias = None\<rparr>"
  have h1: "isPrefixApplied' ?e" by simp
  have h2: "getAlias ?c = None" by simp
  have n1: "map_of (payload (row ?e)) ''Job'' = None" by simp
  have n2: "''Job'' \<notin> set objectPrototypeNames" by (simp add: objectPrototypeNames_def)
  have h3: "\<not> isDefAndNotNull (js_get (payload (row ?e)) (getTableName ?c))"
    using js_get_no_slot [OF n1 n2] by simp
  have h4: "getName ?c \<noteq> ''__proto__''" by simp
  from setField_creates_container [OF h1 h2 h3 h4, of "\<lambda>x c. Undefined" "Prim 5",
      THEN conjunct1]
  have "getField (\<lambda>x c. Undefined) (setField ?e ?c (Prim 5)) ?c = Inr (Prim 5)" .
  with h1 h2 n1 n2 h3 h4 show ?thesis by simp
qed

text \<open>
  C10 as stated fails for a table named like a member of \<^verbatim>\<open>Object.prototype\<close>. The empty
  payload has no slot for the table \<^verbatim>\<open>constructor\<close>, yet \<^verbatim>\<open>payload['constructor']\<close> reads
  the inherited function \<^verbatim>\<open>Object\<close>: \<^verbatim>\<open>setField\<close> creates no container, the value goes onto
  that function, and the payload stays empty.
\<close>

theorem setField_inherited_table_no_container:
  "map_of (payload (row
       \<lparr>row = \<lparr>Row_id = - 1, payload = []\<rparr>, entry_id = 0, isPrefixApplied' = True\<rparr>))
     ''constructor'' = None
   \<and> js_get (payload (row
       \<lparr>row = \<lparr>Row_id = - 1, payload = []\<rparr>, entry_id = 0, isPrefixApplied' = True\<rparr>))
     ''constructor'' = (Builtin ''constructor'' :: nat jsval)
   \<and> payload (row (setField
       \<lparr>row = \<lparr>Row_id = - 1, payload = []\<rparr>, entry_id = 0, isPrefixApplied' = True\<rparr>
       \<lparr>getName = ''id'', getTableName = ''constructor'', getAlias = None\<rparr> (Prim (5::nat))))
     = []
   \<and> obj_get (payload (row (setField
       \<lparr>row = \<lparr>Row_id = - 1, payload = []\<rparr>, entry_id = 0, isPrefixApplied' = True\<rparr>
       \<lparr>getName = ''id'', getTableName = ''constructor'', getAlias = None\<rparr> (Prim (5::nat)))))
     ''constructor'' \<noteq> Obj [(''id'', Prim 5)]"
  by (simp add: setField_def Let_def js_get_def obj_get_def objectPrototypeNames_def)

text \<open>
  C4. \<^verbatim>\<open>setField\<close> on a column with an alias writes the value to the payload's property
  named by the alias, whatever the entry's prefix flag. \<^verbatim>\<open>getField\<close> does not look at
  the alias: it answers the same for every alias of the column. So a value written
  through an alias is not read back: on an entry without prefixes the read gives
  \<^verbatim>\<open>undefined\<close>, on a prefix-applied entry with an empty payload it throws.
\<close>

theorem getField_ignores_alias:
  "payload (row (setField e (col\<lparr>getAlias := Some a\<rparr>) v)) = obj_set (payload (row e)) a v
   \<and> getField hostGet e (col\<lparr>getAlias := x\<rparr>) = getField hostGet e col
   \<and> payload (row (setField
         \<lparr>row = \<lparr>Row_id = 1, payload = []\<rparr>, entry_id = 0, isPrefixApplied' = False\<rparr>
         \<lparr>getName = ''id'', getTableName = ''Job'', getAlias = Some ''jobId''\<rparr> (Prim (7::nat))))
       = [(''jobId'', Prim 7)]
   \<and> getField hostGet
       (setField
         \<lparr>row = \<lparr>Row_id = 1, payload = []\<rparr>, entry_id = 0, isPrefixApplied' = False\<rparr>
         \<lparr>getName = ''id'', getTableName = ''Job'', getAlias = Some ''jobId''\<rparr> (Prim (7::nat)))
       \<lparr>getName = ''id'', getTableName = ''Job'', getAlias = Some ''jobId''\<rparr>
       = Inr Undefined
   \<and> getField hostGet
       (setField
         \<lparr>row = \<lparr>Row_id = 1, payload = []\<rparr>, entry_id = 0, isPrefixApplied' = True\<rparr>
         \<lparr>getName = ''id'', getTableName = ''Job'', getAlias = Some ''jobId''\<rparr> (Prim (7::nat)))
       \<lparr>getName = ''id'', getTableName = ''Job'', getAlias = Some ''jobId''\<rparr>
       = Inl TypeError"
proof -
  have a: "payload (row (setField e (col\<lparr>getAlias := Some a\<rparr>) v))
      = obj_set (payload (row e)) a v"
    by (simp add: setField_def set_payload_def)
  have b: "getField hostGet e (col\<lparr>getAlias := x\<rparr>) = getField hostGet e col"
    by (simp add: getField_def split: jsval.splits)
  show ?thesis
    by (intro conjI a b)
      (simp_all add: setField_def getField_def set_payload_def obj_set_def js_get_def
        objectPrototypeNames_def)
qed

end
